theory Spec2Isabelle
  imports Complex_Main
begin

section \<open>Samples and typed arrays\<close>

text \<open>
  The program computes on JavaScript numbers held in \<^verbatim>\<open>Float32Array\<close>s. A typed
  array is modelled as a list of samples. Writing to an index outside the array is ignored
  by a typed array, which is what \<open>xs[i := v]\<close> does; no read of the modelled functions
  leaves the array. Arithmetic is modelled on exact reals: rounding and the non-finite
  values of IEEE arithmetic are outside the model.
\<close>

type_synonym Float32Array = "real list"

section \<open>Post-processing (\<^verbatim>\<open>applyPostProcessing\<close>)\<close>

definition windowSize :: nat where
  "windowSize = 3"

text \<open>The copy loop \<^verbatim>\<open>temp[i] = signal[i]\<close> into a fresh zero-filled array.\<close>

definition copy_signal :: "Float32Array \<Rightarrow> Float32Array" where
  "copy_signal signal =
     fold (\<lambda>i temp. temp[i := signal ! i]) [0..<length signal] (replicate (length signal) 0)"

text \<open>
  The inner loop \<^verbatim>\<open>for (j = -windowSize; j <= windowSize; j++) sum += temp[i + j]\<close>;
  the loop variable is shifted by \<open>windowSize\<close> to stay in the naturals.
\<close>

definition window_sum :: "Float32Array \<Rightarrow> nat \<Rightarrow> real" where
  "window_sum temp i =
     fold (\<lambda>j sum. sum + temp ! (i + j - windowSize)) [0..<2 * windowSize + 1] 0"

text \<open>
  The loop \<^verbatim>\<open>for (i = windowSize; i < signal.length - windowSize; i++)\<close>. When the
  signal is shorter than the window the JavaScript bound is negative and the loop does not
  run; the truncated subtraction gives the same empty range.
\<close>

definition moving_average :: "Float32Array \<Rightarrow> Float32Array" where
  "moving_average signal =
     (let temp = copy_signal signal in
      fold (\<lambda>i s. s[i := window_sum temp i / real (2 * windowSize + 1)])
           [windowSize..<length signal - windowSize] signal)"

definition maxAmplitude :: "Float32Array \<Rightarrow> real" where
  "maxAmplitude signal = fold (\<lambda>i m. max m \<bar>signal ! i\<bar>) [0..<length signal] 0"

definition scale_signal :: "real \<Rightarrow> Float32Array \<Rightarrow> Float32Array" where
  "scale_signal scaleFactor signal =
     fold (\<lambda>i s. s[i := s ! i * scaleFactor]) [0..<length signal] signal"

definition normalize_amplitude :: "Float32Array \<Rightarrow> Float32Array" where
  "normalize_amplitude signal =
     (let m = maxAmplitude signal in
      if m > 9 / 10 then scale_signal ((9 / 10) / m) signal else signal)"

definition applyPostProcessing :: "Float32Array \<Rightarrow> Float32Array" where
  "applyPostProcessing signal = normalize_amplitude (moving_average signal)"

section \<open>The adaptive filter (\<^verbatim>\<open>applyLMSFilter\<close>)\<close>

record lms_state =
  weights :: Float32Array
  buffer :: Float32Array
  prevOutput :: real
  outputSignal :: Float32Array

text \<open>The shift \<^verbatim>\<open>for (j = filterLength - 1; j > 0; j--) buffer[j] = buffer[j - 1]\<close>.\<close>

definition shift_buffer :: "nat \<Rightarrow> Float32Array \<Rightarrow> Float32Array" where
  "shift_buffer filterLength buf =
     fold (\<lambda>j b. b[j := b ! (j - 1)]) (rev [1..<filterLength]) buf"

text \<open>The guard \<^verbatim>\<open>n - k >= 0\<close> on JavaScript numbers is \<open>k \<le> n\<close>.\<close>

definition filter_output :: "nat \<Rightarrow> nat \<Rightarrow> Float32Array \<Rightarrow> Float32Array \<Rightarrow> real" where
  "filter_output filterLength n w b =
     fold (\<lambda>k y. if k \<le> n then y + w ! k * b ! k else y) [0..<filterLength] 0"

definition update_weights ::
    "nat \<Rightarrow> nat \<Rightarrow> real \<Rightarrow> real \<Rightarrow> Float32Array \<Rightarrow> Float32Array \<Rightarrow> Float32Array" where
  "update_weights filterLength n stepSize error b w =
     fold (\<lambda>k w. if k \<le> n then w[k := w ! k - stepSize * error * b ! k] else w)
          [0..<filterLength] w"

text \<open>One iteration of the sample loop, for sample index \<open>n\<close>.\<close>

definition lms_step :: "Float32Array \<Rightarrow> real \<Rightarrow> nat \<Rightarrow> nat \<Rightarrow> lms_state \<Rightarrow> lms_state" where
  "lms_step inputSignal stepSize filterLength n s =
     (let buf = (shift_buffer filterLength (buffer s))[0 := inputSignal ! n];
          y = filter_output filterLength n (weights s) buf;
          error = inputSignal ! n + prevOutput s;
          w = update_weights filterLength n stepSize error buf (weights s)
      in \<lparr>weights = w, buffer = buf, prevOutput = y,
          outputSignal = (outputSignal s)[n := error]\<rparr>)"

definition lms_init :: "nat \<Rightarrow> Float32Array \<Rightarrow> lms_state" where
  "lms_init filterLength out =
     \<lparr>weights = replicate filterLength 0, buffer = replicate filterLength 0,
      prevOutput = 0, outputSignal = out\<rparr>"

definition lms_loop :: "Float32Array \<Rightarrow> Float32Array \<Rightarrow> real \<Rightarrow> nat \<Rightarrow> lms_state" where
  "lms_loop inputSignal out stepSize filterLength =
     fold (lms_step inputSignal stepSize filterLength) [0..<length inputSignal]
          (lms_init filterLength out)"

text \<open>
  \<^verbatim>\<open>applyLMSFilter\<close> mutates \<^verbatim>\<open>outputSignal\<close>; the model returns its final
  contents: the sample loop followed by the post-processing.
\<close>

definition applyLMSFilter :: "Float32Array \<Rightarrow> Float32Array \<Rightarrow> real \<Rightarrow> nat \<Rightarrow> Float32Array" where
  "applyLMSFilter inputSignal out stepSize filterLength =
     applyPostProcessing (outputSignal (lms_loop inputSignal out stepSize filterLength))"

section \<open>The filter recursion as the specification words it\<close>

text \<open>
  The state machine of the specification's \<^verbatim>\<open>runLMS\<close>: the delay line is shifted right
  with the new sample inserted at index 0, the filter output is the sum over all \<open>L\<close> taps,
  the emitted sample is the input plus the previous filter output, and every tap is
  updated. It carries no guard on the tap index.
\<close>

record filter_state =
  fs_weights :: "real list"
  fs_delayLine :: "real list"
  fs_prevOutput :: real

definition spec_init :: "nat \<Rightarrow> filter_state" where
  "spec_init L = \<lparr>fs_weights = replicate L 0, fs_delayLine = replicate L 0, fs_prevOutput = 0\<rparr>"

definition spec_step :: "real \<Rightarrow> nat \<Rightarrow> real \<Rightarrow> filter_state \<Rightarrow> real \<times> filter_state" where
  "spec_step mu L x s =
     (let d = take L (x # fs_delayLine s);
          y = (\<Sum>k\<leftarrow>[0..<L]. fs_weights s ! k * d ! k);
          e = x + fs_prevOutput s;
          w = map (\<lambda>k. fs_weights s ! k - mu * e * d ! k) [0..<L]
      in (e, \<lparr>fs_weights = w, fs_delayLine = d, fs_prevOutput = y\<rparr>))"

fun spec_run :: "real \<Rightarrow> nat \<Rightarrow> filter_state \<Rightarrow> real list \<Rightarrow> real list \<times> filter_state" where
  "spec_run mu L s [] = ([], s)"
| "spec_run mu L s (x # xs) =
     (case spec_step mu L x s of (e, s') \<Rightarrow>
        (case spec_run mu L s' xs of (es, s'') \<Rightarrow> (e # es, s'')))"

definition runLMS :: "real list \<Rightarrow> real \<Rightarrow> nat \<Rightarrow> real list \<times> filter_state" where
  "runLMS inputSignal mu L = spec_run mu L (spec_init L) inputSignal"

section \<open>The orchestrator (\<^verbatim>\<open>processAudio\<close>)\<close>

text \<open>
  A Web Audio \<^verbatim>\<open>AudioBuffer\<close>: its channels, its length in sample frames and its sample
  rate. The number of channels is the number of channel arrays it holds.
\<close>

record AudioBuffer =
  channelData :: "Float32Array list"
  frameLength :: nat
  sampleRate :: real

definition numberOfChannels :: "AudioBuffer \<Rightarrow> nat" where
  "numberOfChannels b = length (channelData b)"

definition getChannelData :: "AudioBuffer \<Rightarrow> nat \<Rightarrow> Float32Array" where
  "getChannelData b c = channelData b ! c"

text \<open>
  \<^verbatim>\<open>AudioContext.createBuffer\<close> gives a buffer of zero-filled channels. A valid buffer has
  at least one channel, a positive length and sample rate, and channels of its length.
\<close>

definition createBuffer :: "nat \<Rightarrow> nat \<Rightarrow> real \<Rightarrow> AudioBuffer" where
  "createBuffer n len rate =
     \<lparr>channelData = replicate n (replicate len 0), frameLength = len, sampleRate = rate\<rparr>"

definition valid_buffer :: "AudioBuffer \<Rightarrow> bool" where
  "valid_buffer b \<longleftrightarrow>
     0 < numberOfChannels b \<and> 0 < frameLength b \<and> 0 < sampleRate b
     \<and> list_all (\<lambda>c. length c = frameLength b) (channelData b)"

text \<open>\<^verbatim>\<open>String.prototype.toLowerCase\<close> on the ASCII letters.\<close>

definition char_toLowerCase :: "char \<Rightarrow> char" where
  "char_toLowerCase c =
     (let n = (of_char c :: nat) in if 65 \<le> n \<and> n \<le> 90 then char_of (n + 32) else c)"

definition toLowerCase :: "string \<Rightarrow> string" where
  "toLowerCase s = map char_toLowerCase s"

text \<open>
  The \<^verbatim>\<open>switch (noiseType.toLowerCase())\<close> of the channel loop, on the lower-cased
  noise type \<open>t\<close>: each case runs the filter into \<open>outputData\<close> with its own step size
  and filter length.
\<close>

definition switch_noiseType :: "string \<Rightarrow> Float32Array \<Rightarrow> Float32Array \<Rightarrow> Float32Array" where
  "switch_noiseType t inputData outputData =
     (if t = ''lawnmower'' then applyLMSFilter inputData outputData (1 / 100) 32
      else if t = ''traffic'' then applyLMSFilter inputData outputData (5 / 1000) 128
      else if t = ''construction'' then applyLMSFilter inputData outputData (8 / 1000) 64
      else if t = ''fan/hvac'' then applyLMSFilter inputData outputData (3 / 1000) 256
      else applyLMSFilter inputData outputData (1 / 100) 128)"

text \<open>The body of the channel loop; the filter writes into the channel of the new buffer.\<close>

definition process_channel :: "string \<Rightarrow> AudioBuffer \<Rightarrow> nat \<Rightarrow> AudioBuffer \<Rightarrow> AudioBuffer" where
  "process_channel noiseType originalBuffer channel processedBuffer =
     (let inputData = getChannelData originalBuffer channel;
          outputData = getChannelData processedBuffer channel;
          result = switch_noiseType (toLowerCase noiseType) inputData outputData
      in processedBuffer\<lparr>channelData := (channelData processedBuffer)[channel := result]\<rparr>)"

definition processAudio :: "AudioBuffer \<Rightarrow> string \<Rightarrow> AudioBuffer" where
  "processAudio originalBuffer noiseType =
     fold (process_channel noiseType originalBuffer)
          [0..<numberOfChannels originalBuffer]
          (createBuffer (numberOfChannels originalBuffer) (frameLength originalBuffer)
                        (sampleRate originalBuffer))"

section \<open>The classifier (\<^verbatim>\<open>extractFeatures\<close>, \<^verbatim>\<open>simulateModelPrediction\<close>, \<^verbatim>\<open>classifyNoise\<close>)\<close>

text \<open>
  \<^verbatim>\<open>Math.random\<close> is modelled as a sequence of draws: \<open>rnd i\<close> is the value of the
  \<open>i\<close>-th call, a number in \<open>[0, 1)\<close>.
\<close>

record features =
  energy :: real
  zeroCrossings :: real
  spectralCentroid :: real
  spectralFlatness :: real
  periodicity :: real

definition NOISE_TYPES :: "string list" where
  "NOISE_TYPES = [''Lawnmower'', ''Traffic'', ''Construction'', ''Fan/HVAC'', ''Crowd'', ''Wind'']"

definition frameSize :: nat where
  "frameSize = 1024"

text \<open>
  The mean of the squares, \<^verbatim>\<open>reduce((sum, val) => sum + val * val, 0) / length\<close>.
  An \<^verbatim>\<open>AudioBuffer\<close> has at least one sample frame, so the divisor is not zero.
\<close>

definition signal_energy :: "Float32Array \<Rightarrow> real" where
  "signal_energy cd =
     fold (\<lambda>val sum. sum + val * val) cd 0 / real (length cd)"

definition count_zero_crossings :: "Float32Array \<Rightarrow> real" where
  "count_zero_crossings cd =
     fold (\<lambda>i z. if (cd ! i \<ge> 0 \<and> cd ! (i - 1) < 0) \<or> (cd ! i < 0 \<and> cd ! (i - 1) \<ge> 0)
                  then z + 1 else z)
          [1..<length cd] 0"

definition lag_correlation :: "Float32Array \<Rightarrow> nat \<Rightarrow> real" where
  "lag_correlation cd lag =
     fold (\<lambda>i correlation.
             if i + lag < length cd then correlation + cd ! i * cd ! (i + lag)
             else correlation)
          [0..<frameSize] 0"

definition sumCorrelation :: "Float32Array \<Rightarrow> real" where
  "sumCorrelation cd =
     fold (\<lambda>lag s. s + \<bar>lag_correlation cd lag\<bar>) [1..<frameSize] 0"

definition extractFeatures :: "AudioBuffer \<Rightarrow> real \<Rightarrow> features" where
  "extractFeatures buf r =
     (let cd = getChannelData buf 0;
          zc = count_zero_crossings cd / real (length cd)
      in \<lparr>energy = signal_energy cd,
          zeroCrossings = zc,
          spectralCentroid = zc * 10000,
          spectralFlatness = r * (5 / 10) + 2 / 10,
          periodicity = sumCorrelation cd / real frameSize\<rparr>)"

text \<open>
  \<^verbatim>\<open>Number.parseFloat(score.toFixed(2))\<close>: \<^verbatim>\<open>toFixed\<close> takes the sign off, picks the
  integer \<open>n\<close> with \<open>n / 100\<close> nearest to the number, the larger one of two, and prints
  numbers from \<open>10^21\<close> on unrounded.
\<close>

definition toFixed2 :: "real \<Rightarrow> real" where
  "toFixed2 x =
     (if \<bar>x\<bar> \<ge> 10 ^ 21 then x
      else sgn x * (real_of_int \<lfloor>\<bar>x\<bar> * 100 + 1 / 2\<rfloor> / 100))"

text \<open>The \<^verbatim>\<open>switch\<close> of \<^verbatim>\<open>simulateModelPrediction\<close>: what is added to the base score.\<close>

definition type_bonus :: "string \<Rightarrow> features \<Rightarrow> real" where
  "type_bonus type f =
     (if type = ''Lawnmower'' then
        (if energy f > 1 / 10 \<and> periodicity f > 5 / 10 then 5 / 10 else 0)
      else if type = ''Traffic'' then
        (if energy f > 5 / 100 \<and> energy f < 2 / 10 \<and> periodicity f < 3 / 10 then 4 / 10 else 0)
      else if type = ''Construction'' then
        (if energy f > 15 / 100 \<and> zeroCrossings f > 3 / 10 then 3 / 10 else 0)
      else if type = ''Fan/HVAC'' then
        (if energy f < 1 / 10 \<and> zeroCrossings f < 2 / 10 \<and> periodicity f > 6 / 10
         then 6 / 10 else 0)
      else if type = ''Crowd'' then
        (if periodicity f < 2 / 10 then 3 / 10 else 0)
      else if type = ''Wind'' then
        (if energy f < 15 / 100 \<and> zeroCrossings f < 15 / 100 then 4 / 10 else 0)
      else 0)"

text \<open>The body of \<^verbatim>\<open>NOISE_TYPES.forEach\<close> for one type, with its random draw \<open>r\<close>.\<close>

definition type_score :: "features \<Rightarrow> string \<Rightarrow> real \<Rightarrow> real" where
  "type_score f type r =
     (let score = 1 / 10 + r * (2 / 10);
          score = score + type_bonus type f;
          score = min 1 score
      in toFixed2 score)"

text \<open>
  The scores object, as the list of its entries in insertion order, which is the order
  \<^verbatim>\<open>Object.entries\<close> gives for these keys.
\<close>

definition simulateModelPrediction :: "features \<Rightarrow> (nat \<Rightarrow> real) \<Rightarrow> (string \<times> real) list" where
  "simulateModelPrediction f rnd =
     map (\<lambda>i. (NOISE_TYPES ! i, type_score f (NOISE_TYPES ! i) (rnd i))) [0..<length NOISE_TYPES]"

definition pick_highest :: "(string \<times> real) list \<Rightarrow> real \<times> string" where
  "pick_highest scores =
     fold (\<lambda>(type, score) (highestScore, detectedType).
             if score > highestScore then (score, type) else (highestScore, detectedType))
          scores (0, [])"

text \<open>
  \<^verbatim>\<open>classifyNoise\<close>: the first draw goes to \<^verbatim>\<open>extractFeatures\<close>, the next six to
  \<^verbatim>\<open>simulateModelPrediction\<close>. The result is what the component stores and reports:
  the features, the scores and the detected type.
\<close>

definition classifyNoise ::
    "AudioBuffer \<Rightarrow> (nat \<Rightarrow> real) \<Rightarrow> features \<times> (string \<times> real) list \<times> string" where
  "classifyNoise audioBuffer rnd =
     (let f = extractFeatures audioBuffer (rnd 0);
          scores = simulateModelPrediction f (\<lambda>i. rnd (Suc i));
          detectedType = snd (pick_highest scores)
      in (f, scores, detectedType))"

section \<open>The post-processing on numbers with non-finite values\<close>

text \<open>
  The sample loop stores into a \<^verbatim>\<open>Float32Array\<close>, and a store beyond the binary32
  range gives an infinity; sums and products of infinities give NaN. The post-processing
  then receives such samples. This second model of \<^verbatim>\<open>applyPostProcessing\<close> runs on
  JavaScript numbers with their non-finite values: \<open>Fin x\<close> is a finite number, and the
  operations follow IEEE arithmetic on infinities and NaN (\<^verbatim>\<open>Math.max\<close> and every
  operator give NaN for a NaN operand, a comparison with NaN is false, infinity times
  zero is NaN). A store into the array overflows to an infinity from
  \<^verbatim>\<open>(2 - 2^-24) * 2^127\<close> on. Finite values are exact reals: their rounding is not
  modelled, and the model has a single zero.
\<close>

datatype jsnum = Fin real | PInf | NInf | NaN

text \<open>The operators \<^verbatim>\<open>+\<close>, \<^verbatim>\<open>*\<close> and \<^verbatim>\<open>/\<close>.\<close>

fun js_add :: "jsnum \<Rightarrow> jsnum \<Rightarrow> jsnum" where
  "js_add NaN b = NaN"
| "js_add a NaN = NaN"
| "js_add (Fin x) (Fin y) = Fin (x + y)"
| "js_add PInf NInf = NaN"
| "js_add NInf PInf = NaN"
| "js_add PInf b = PInf"
| "js_add a PInf = PInf"
| "js_add NInf b = NInf"
| "js_add a NInf = NInf"

fun js_mul :: "jsnum \<Rightarrow> jsnum \<Rightarrow> jsnum" where
  "js_mul NaN b = NaN"
| "js_mul a NaN = NaN"
| "js_mul (Fin x) (Fin y) = Fin (x * y)"
| "js_mul (Fin x) PInf = (if x = 0 then NaN else if 0 < x then PInf else NInf)"
| "js_mul (Fin x) NInf = (if x = 0 then NaN else if 0 < x then NInf else PInf)"
| "js_mul PInf (Fin y) = (if y = 0 then NaN else if 0 < y then PInf else NInf)"
| "js_mul NInf (Fin y) = (if y = 0 then NaN else if 0 < y then NInf else PInf)"
| "js_mul PInf PInf = PInf"
| "js_mul PInf NInf = NInf"
| "js_mul NInf PInf = NInf"
| "js_mul NInf NInf = PInf"

fun js_div :: "jsnum \<Rightarrow> jsnum \<Rightarrow> jsnum" where
  "js_div NaN b = NaN"
| "js_div a NaN = NaN"
| "js_div (Fin x) (Fin y) =
     (if y = 0 then (if x = 0 then NaN else if 0 < x then PInf else NInf) else Fin (x / y))"
| "js_div (Fin x) PInf = Fin 0"
| "js_div (Fin x) NInf = Fin 0"
| "js_div PInf (Fin y) = (if y < 0 then NInf else PInf)"
| "js_div NInf (Fin y) = (if y < 0 then PInf else NInf)"
| "js_div a b = NaN"

text \<open>\<^verbatim>\<open>Math.abs\<close>, \<^verbatim>\<open>Math.max\<close> and the comparison \<^verbatim>\<open>a > b\<close>.\<close>

fun js_abs :: "jsnum \<Rightarrow> jsnum" where
  "js_abs (Fin x) = Fin \<bar>x\<bar>"
| "js_abs PInf = PInf"
| "js_abs NInf = PInf"
| "js_abs NaN = NaN"

fun js_max :: "jsnum \<Rightarrow> jsnum \<Rightarrow> jsnum" where
  "js_max NaN b = NaN"
| "js_max a NaN = NaN"
| "js_max (Fin x) (Fin y) = Fin (max x y)"
| "js_max PInf b = PInf"
| "js_max a PInf = PInf"
| "js_max NInf b = b"
| "js_max a NInf = a"

fun js_gt :: "jsnum \<Rightarrow> jsnum \<Rightarrow> bool" where
  "js_gt NaN b = False"
| "js_gt a NaN = False"
| "js_gt (Fin x) (Fin y) = (x > y)"
| "js_gt PInf PInf = False"
| "js_gt PInf b = True"
| "js_gt a PInf = False"
| "js_gt NInf b = False"
| "js_gt a NInf = True"

text \<open>The store into a \<^verbatim>\<open>Float32Array\<close>.\<close>

definition float32_overflow :: real where
  "float32_overflow = (2 - 1 / 2 ^ 24) * 2 ^ 127"

fun toFloat32 :: "jsnum \<Rightarrow> jsnum" where
  "toFloat32 (Fin x) =
     (if float32_overflow \<le> x then PInf else if x \<le> - float32_overflow then NInf else Fin x)"
| "toFloat32 v = v"

text \<open>The loops of \<^verbatim>\<open>applyPostProcessing\<close>, as in the first model.\<close>

definition copy_signal_js :: "jsnum list \<Rightarrow> jsnum list" where
  "copy_signal_js signal =
     fold (\<lambda>i temp. temp[i := signal ! i]) [0..<length signal] (replicate (length signal) (Fin 0))"

definition window_sum_js :: "jsnum list \<Rightarrow> nat \<Rightarrow> jsnum" where
  "window_sum_js temp i =
     fold (\<lambda>j sum. js_add sum (temp ! (i + j - windowSize))) [0..<2 * windowSize + 1] (Fin 0)"

definition moving_average_js :: "jsnum list \<Rightarrow> jsnum list" where
  "moving_average_js signal =
     (let temp = copy_signal_js signal in
      fold (\<lambda>i s. s[i := toFloat32 (js_div (window_sum_js temp i) (Fin (real (2 * windowSize + 1))))])
           [windowSize..<length signal - windowSize] signal)"

definition maxAmplitude_js :: "jsnum list \<Rightarrow> jsnum" where
  "maxAmplitude_js signal =
     fold (\<lambda>i m. js_max m (js_abs (signal ! i))) [0..<length signal] (Fin 0)"

definition scale_signal_js :: "jsnum \<Rightarrow> jsnum list \<Rightarrow> jsnum list" where
  "scale_signal_js scaleFactor signal =
     fold (\<lambda>i s. s[i := toFloat32 (js_mul (s ! i) scaleFactor)]) [0..<length signal] signal"

definition normalize_amplitude_js :: "jsnum list \<Rightarrow> jsnum list" where
  "normalize_amplitude_js signal =
     (let m = maxAmplitude_js signal in
      if js_gt m (Fin (9 / 10)) then scale_signal_js (js_div (Fin (9 / 10)) m) signal else signal)"

definition applyPostProcessing_js :: "jsnum list \<Rightarrow> jsnum list" where
  "applyPostProcessing_js signal = normalize_amplitude_js (moving_average_js signal)"

section \<open>Loops that write one index per iteration\<close>

lemma fold_update_length:
  "length (fold (\<lambda>i s. s[i := g i s]) is xs) = length xs"
  by (induction "is" arbitrary: xs) simp_all

lemma fold_update_nth:
  assumes "b \<le> length xs" "k < length xs"
  shows "fold (\<lambda>i s. s[i := g i (s ! i)]) [a..<b] xs ! k =
           (if a \<le> k \<and> k < b then g k (xs ! k) else xs ! k)"
  using assms
proof (induction b arbitrary: k)
  case 0
  then show ?case by simp
next
  case (Suc b)
  show ?case
  proof (cases "a \<le> b")
    case True
    let ?s = "fold (\<lambda>i s. s[i := g i (s ! i)]) [a..<b] xs"
    have len: "length ?s = length xs" by (rule fold_update_length)
    have ih: "\<And>j. j < length xs \<Longrightarrow> ?s ! j = (if a \<le> j \<and> j < b then g j (xs ! j) else xs ! j)"
      using Suc by simp
    from True have "fold (\<lambda>i s. s[i := g i (s ! i)]) [a..<Suc b] xs = ?s[b := g b (?s ! b)]"
      by simp
    then show ?thesis using Suc.prems len ih True
      by (auto simp: nth_list_update)
  next
    case False
    then show ?thesis by auto
  qed
qed

section \<open>Properties of the post-processing\<close>

lemma copy_signal_id: "copy_signal signal = signal"
proof (rule nth_equalityI)
  show "length (copy_signal signal) = length signal"
    unfolding copy_signal_def by (simp add: fold_update_length)
next
  fix i assume "i < length (copy_signal signal)"
  then have i: "i < length signal"
    unfolding copy_signal_def by (simp add: fold_update_length)
  show "copy_signal signal ! i = signal ! i"
    unfolding copy_signal_def
    using fold_update_nth [of "length signal" "replicate (length signal) 0" i "\<lambda>i _. signal ! i" 0] i
    by simp
qed

lemma window_sum_eq:
  "3 \<le> i \<Longrightarrow> window_sum temp i =
     temp ! (i - 3) + temp ! (i - 2) + temp ! (i - 1) + temp ! i
       + temp ! (i + 1) + temp ! (i + 2) + temp ! (i + 3)"
  unfolding window_sum_def windowSize_def
  by (simp add: upt_rec numeral_eq_Suc)

lemma moving_average_length: "length (moving_average signal) = length signal"
  unfolding moving_average_def Let_def by (simp add: fold_update_length)

lemma moving_average_nth:
  assumes "i < length signal"
  shows "moving_average signal ! i =
    (if 3 \<le> i \<and> i + 3 < length signal
     then (signal ! (i - 3) + signal ! (i - 2) + signal ! (i - 1) + signal ! i
            + signal ! (i + 1) + signal ! (i + 2) + signal ! (i + 3)) / 7
     else signal ! i)"
proof -
  have "moving_average signal ! i =
      (if windowSize \<le> i \<and> i < length signal - windowSize
       then window_sum signal i / real (2 * windowSize + 1) else signal ! i)"
    unfolding moving_average_def Let_def copy_signal_id
    using fold_update_nth [of "length signal - windowSize" signal i
        "\<lambda>i _. window_sum signal i / real (2 * windowSize + 1)" windowSize] assms
    by simp
  then show ?thesis
    by (auto simp: windowSize_def window_sum_eq)
qed

lemma fold_max_upt:
  "fold (\<lambda>i m. max m (f i)) [0..<n] (m0::real) = Max (insert m0 (f ` {..<n}))"
proof (induction n)
  case 0
  then show ?case by simp
next
  case (Suc n)
  have "fold (\<lambda>i m. max m (f i)) [0..<Suc n] m0 = max (Max (insert m0 (f ` {..<n}))) (f n)"
    using Suc by simp
  also have "\<dots> = Max (insert (f n) (insert m0 (f ` {..<n})))"
    by (simp add: max.commute)
  also have "insert (f n) (insert m0 (f ` {..<n})) = insert m0 (f ` {..<Suc n})"
    by (auto simp: lessThan_Suc)
  finally show ?case .
qed

lemma maxAmplitude_Max: "maxAmplitude signal = Max (insert 0 (abs ` set signal))"
proof -
  have "(\<lambda>i. \<bar>signal ! i\<bar>) ` {..<length signal} = abs ` set signal"
    by (auto simp: set_conv_nth image_iff)
  then show ?thesis
    unfolding maxAmplitude_def by (simp add: fold_max_upt)
qed

lemma maxAmplitude_nonneg: "0 \<le> maxAmplitude signal"
  unfolding maxAmplitude_Max by simp

lemma maxAmplitude_ge: "x \<in> set signal \<Longrightarrow> \<bar>x\<bar> \<le> maxAmplitude signal"
  unfolding maxAmplitude_Max by simp

lemma maxAmplitude_le: "(\<forall>x \<in> set signal. \<bar>x\<bar> \<le> c) \<Longrightarrow> 0 \<le> c \<Longrightarrow> maxAmplitude signal \<le> c"
  unfolding maxAmplitude_Max by simp

lemma scale_signal_map: "scale_signal c signal = map (\<lambda>x. x * c) signal"
proof (rule nth_equalityI)
  show "length (scale_signal c signal) = length (map (\<lambda>x. x * c) signal)"
    unfolding scale_signal_def by (simp add: fold_update_length)
next
  fix i assume "i < length (scale_signal c signal)"
  then have i: "i < length signal"
    unfolding scale_signal_def by (simp add: fold_update_length)
  show "scale_signal c signal ! i = map (\<lambda>x. x * c) signal ! i"
    unfolding scale_signal_def
    using fold_update_nth [of "length signal" signal i "\<lambda>_ x. x * c" 0] i
    by simp
qed

lemma normalize_amplitude_bound:
  assumes "x \<in> set (normalize_amplitude signal)"
  shows "\<bar>x\<bar> \<le> 9 / 10"
proof (cases "maxAmplitude signal > 9 / 10")
  case True
  let ?m = "maxAmplitude signal"
  from True have mpos: "0 < ?m" by simp
  from assms True obtain y where y: "y \<in> set signal" and x: "x = y * ((9 / 10) / ?m)"
    by (auto simp: normalize_amplitude_def scale_signal_map)
  have "\<bar>y\<bar> \<le> ?m" using y by (rule maxAmplitude_ge)
  then have "\<bar>y\<bar> / ?m \<le> 1" using mpos by simp
  then have "\<bar>y\<bar> / ?m * (9 / 10) \<le> 9 / 10" by simp
  moreover have "\<bar>x\<bar> = \<bar>y\<bar> / ?m * (9 / 10)"
    using mpos by (simp add: x abs_mult)
  ultimately show ?thesis by simp
next
  case False
  with assms have "x \<in> set signal" by (simp add: normalize_amplitude_def)
  then have "\<bar>x\<bar> \<le> maxAmplitude signal" by (rule maxAmplitude_ge)
  with False show ?thesis by simp
qed

text \<open>
  Claim C6. The moving average keeps the length of the signal and changes only the
  indices from 3 to \<open>n - 4\<close>: there the sample becomes the mean of the seven original
  samples around it, and the first three and last three samples stay as they were.
\<close>

theorem moving_average_frame:
  "length (moving_average signal) = length signal
   \<and> (\<forall>i < length signal. moving_average signal ! i =
        (if 3 \<le> i \<and> i + 3 < length signal
         then (signal ! (i - 3) + signal ! (i - 2) + signal ! (i - 1) + signal ! i
                + signal ! (i + 1) + signal ! (i + 2) + signal ! (i + 3)) / 7
         else signal ! i))"
  by (simp add: moving_average_length moving_average_nth)

theorem moving_average_frame_witness:
  "moving_average [1, 2, 3, 4, 5, 6, 7, 15] = [1, 2, 3, 4, 6, 6, 7, 15]"
proof (rule nth_equalityI)
  show "length (moving_average [1, 2, 3, 4, 5, 6, 7, 15]) = length [1, 2, 3, 4, 6, 6, 7, 15::real]"
    using moving_average_frame [of "[1, 2, 3, 4, 5, 6, 7, 15]"] by simp
next
  fix i assume "i < length (moving_average [1, 2, 3, 4, 5, 6, 7, 15])"
  then have "i < 8"
    using moving_average_frame [of "[1, 2, 3, 4, 5, 6, 7, 15]"] by simp
  then have "i \<in> {0, 1, 2, 3, 4, 5, 6, 7}" by auto
  then show "moving_average [1, 2, 3, 4, 5, 6, 7, 15] ! i = [1, 2, 3, 4, 6, 6, 7, 15] ! i"
    using moving_average_frame [of "[1, 2, 3, 4, 5, 6, 7, 15]"]
    by auto
qed

section \<open>The post-processing on finite and on non-finite samples\<close>

text \<open>
  On finite samples below the binary32 range the two models of the post-processing agree,
  and every sample of the result is at most 0.9 in absolute value.
\<close>

lemma float32_overflow_large: "9 / 10 < float32_overflow"
  by (simp add: float32_overflow_def)

lemma toFloat32_Fin: "\<bar>x\<bar> < float32_overflow \<Longrightarrow> toFloat32 (Fin x) = Fin x"
  by auto

lemma copy_signal_js_id: "copy_signal_js signal = signal"
proof (rule nth_equalityI)
  show "length (copy_signal_js signal) = length signal"
    unfolding copy_signal_js_def by (simp add: fold_update_length)
next
  fix i assume "i < length (copy_signal_js signal)"
  then have i: "i < length signal"
    unfolding copy_signal_js_def by (simp add: fold_update_length)
  show "copy_signal_js signal ! i = signal ! i"
    unfolding copy_signal_js_def
    using fold_update_nth [of "length signal" "replicate (length signal) (Fin 0)" i
        "\<lambda>i _. signal ! i" 0] i
    by simp
qed

lemma window_sum_js_Fin:
  assumes "3 \<le> i" "i + 3 < length s"
  shows "window_sum_js (map Fin s) i = Fin (window_sum s i)"
  using assms unfolding window_sum_js_def window_sum_def windowSize_def
  by (simp add: upt_rec numeral_eq_Suc)

lemma window_average_bound:
  assumes "\<forall>x \<in> set s. \<bar>x\<bar> < B" "3 \<le> i" "i + 3 < length s"
  shows "\<bar>window_sum s i / 7\<bar> < B"
proof -
  have b: "- B < s ! j \<and> s ! j < B" if "j < length s" for j
    using assms(1) that by (simp add: abs_less_iff) (metis nth_mem neg_less_iff_less minus_minus)
  have l: "i - 3 < length s" "i - 2 < length s" "i - 1 < length s" "i < length s"
    "i + 1 < length s" "i + 2 < length s" "i + 3 < length s"
    using assms(3) by simp_all
  note b1 = b [OF l(1)] b [OF l(2)] b [OF l(3)] b [OF l(4)] b [OF l(5)] b [OF l(6)] b [OF l(7)]
  have sum: "window_sum s i = s ! (i - 3) + s ! (i - 2) + s ! (i - 1) + s ! i
       + s ! (i + 1) + s ! (i + 2) + s ! (i + 3)"
    using assms(2) by (rule window_sum_eq)
  have "- (7 * B) < window_sum s i \<and> window_sum s i < 7 * B"
    unfolding sum using b1 by linarith
  then show ?thesis
    by (simp add: abs_less_iff)
qed

lemma moving_average_js_Fin:
  assumes "\<forall>x \<in> set s. \<bar>x\<bar> < float32_overflow"
  shows "moving_average_js (map Fin s) = map Fin (moving_average s)"
proof (rule nth_equalityI)
  show "length (moving_average_js (map Fin s)) = length (map Fin (moving_average s))"
    by (simp add: moving_average_js_def Let_def fold_update_length moving_average_length)
next
  fix i assume "i < length (moving_average_js (map Fin s))"
  then have i: "i < length s"
    by (simp add: moving_average_js_def Let_def fold_update_length)
  have js: "moving_average_js (map Fin s) ! i =
      (if windowSize \<le> i \<and> i < length s - windowSize
       then toFloat32 (js_div (window_sum_js (map Fin s) i) (Fin (real (2 * windowSize + 1))))
       else map Fin s ! i)"
    unfolding moving_average_js_def Let_def copy_signal_js_id
    using fold_update_nth [of "length (map Fin s) - windowSize" "map Fin s" i
        "\<lambda>i _. toFloat32 (js_div (window_sum_js (map Fin s) i) (Fin (real (2 * windowSize + 1))))"
        windowSize] i
    by simp
  show "moving_average_js (map Fin s) ! i = map Fin (moving_average s) ! i"
  proof (cases "3 \<le> i \<and> i + 3 < length s")
    case True
    then have w: "windowSize \<le> i \<and> i < length s - windowSize"
      by (simp add: windowSize_def less_diff_conv)
    have "\<bar>window_sum s i / 7\<bar> < float32_overflow"
      using assms True by (intro window_average_bound) simp_all
    then have t: "toFloat32 (Fin (window_sum s i / 7)) = Fin (window_sum s i / 7)"
      by (rule toFloat32_Fin)
    have m: "moving_average s ! i = window_sum s i / 7"
      using True i by (simp add: moving_average_nth window_sum_eq)
    have "moving_average_js (map Fin s) ! i =
            toFloat32 (js_div (window_sum_js (map Fin s) i) (Fin (real (2 * windowSize + 1))))"
      using w by (simp add: js del: toFloat32.simps)
    also have "\<dots> = toFloat32 (Fin (window_sum s i / 7))"
      using True by (simp add: window_sum_js_Fin windowSize_def del: toFloat32.simps)
    also have "\<dots> = Fin (moving_average s ! i)"
      by (simp only: t m)
    finally show ?thesis
      using i by (simp add: moving_average_length)
  next
    case False
    then have w: "\<not> (windowSize \<le> i \<and> i < length s - windowSize)"
      by (simp add: windowSize_def less_diff_conv)
    have "moving_average s ! i = s ! i"
      using False by (simp only: moving_average_nth [OF i] if_False)
    moreover have "moving_average_js (map Fin s) ! i = map Fin s ! i"
      using w by (auto simp: js simp del: toFloat32.simps)
    ultimately show ?thesis
      using i by (simp add: moving_average_length)
  qed
qed

lemma moving_average_bound:
  assumes "\<forall>x \<in> set s. \<bar>x\<bar> < B"
  shows "\<forall>x \<in> set (moving_average s). \<bar>x\<bar> < B"
proof
  fix x assume "x \<in> set (moving_average s)"
  then obtain i where i: "i < length s" and x: "x = moving_average s ! i"
    by (auto simp: in_set_conv_nth moving_average_length)
  show "\<bar>x\<bar> < B"
  proof (cases "3 \<le> i \<and> i + 3 < length s")
    case True
    then have m: "moving_average s ! i = window_sum s i / 7"
      using i by (simp add: moving_average_nth window_sum_eq)
    have "\<bar>window_sum s i / 7\<bar> < B"
      using assms True by (intro window_average_bound) simp_all
    then show ?thesis by (simp only: x m)
  next
    case False
    then have "moving_average s ! i = s ! i"
      by (simp only: moving_average_nth [OF i] if_False)
    then show ?thesis using i x assms by simp
  qed
qed

lemma maxAmplitude_js_fold:
  assumes "n \<le> length s"
  shows "fold (\<lambda>i m. js_max m (js_abs (map Fin s ! i))) [0..<n] (Fin m0) =
         Fin (fold (\<lambda>i m. max m \<bar>s ! i\<bar>) [0..<n] m0)"
  using assms by (induction n) simp_all

lemma maxAmplitude_js_Fin: "maxAmplitude_js (map Fin s) = Fin (maxAmplitude s)"
  unfolding maxAmplitude_js_def maxAmplitude_def
  using maxAmplitude_js_fold [of "length s" s 0] by simp

lemma scale_signal_js_Fin:
  assumes "\<forall>x \<in> set t. \<bar>x * c\<bar> < float32_overflow"
  shows "scale_signal_js (Fin c) (map Fin t) = map Fin (scale_signal c t)"
proof (rule nth_equalityI)
  show "length (scale_signal_js (Fin c) (map Fin t)) = length (map Fin (scale_signal c t))"
    by (simp add: scale_signal_js_def fold_update_length scale_signal_map)
next
  fix i assume "i < length (scale_signal_js (Fin c) (map Fin t))"
  then have i: "i < length t"
    by (simp add: scale_signal_js_def fold_update_length)
  have "scale_signal_js (Fin c) (map Fin t) ! i = toFloat32 (js_mul (map Fin t ! i) (Fin c))"
    unfolding scale_signal_js_def
    using fold_update_nth [of "length (map Fin t)" "map Fin t" i
        "\<lambda>_ x. toFloat32 (js_mul x (Fin c))" 0] i
    by simp
  moreover have "\<bar>t ! i * c\<bar> < float32_overflow"
    using assms i by simp
  ultimately show "scale_signal_js (Fin c) (map Fin t) ! i = map Fin (scale_signal c t) ! i"
    using i by (simp add: scale_signal_map toFloat32_Fin del: toFloat32.simps)
qed

lemma normalize_amplitude_js_Fin:
  "normalize_amplitude_js (map Fin t) = map Fin (normalize_amplitude t)"
proof (cases "maxAmplitude t > 9 / 10")
  case True
  let ?c = "(9 / 10) / maxAmplitude t"
  have "\<forall>x \<in> set t. \<bar>x * ?c\<bar> < float32_overflow"
  proof
    fix x assume "x \<in> set t"
    then have "x * ?c \<in> set (normalize_amplitude t)"
      using True by (simp add: normalize_amplitude_def scale_signal_map)
    then have "\<bar>x * ?c\<bar> \<le> 9 / 10" by (rule normalize_amplitude_bound)
    then show "\<bar>x * ?c\<bar> < float32_overflow"
      using float32_overflow_large by simp
  qed
  then have "scale_signal_js (Fin ?c) (map Fin t) = map Fin (scale_signal ?c t)"
    by (rule scale_signal_js_Fin)
  then show ?thesis
    using True by (simp add: normalize_amplitude_js_def normalize_amplitude_def maxAmplitude_js_Fin)
next
  case False
  then show ?thesis
    by (simp add: normalize_amplitude_js_def normalize_amplitude_def maxAmplitude_js_Fin)
qed

lemma applyPostProcessing_js_Fin:
  assumes "\<forall>x \<in> set s. \<bar>x\<bar> < float32_overflow"
  shows "applyPostProcessing_js (map Fin s) = map Fin (applyPostProcessing s)"
  using assms
  by (simp add: applyPostProcessing_js_def applyPostProcessing_def moving_average_js_Fin
      normalize_amplitude_js_Fin)

lemma finite_signal_amplitude_bound:
  assumes "\<forall>x \<in> set s. \<bar>x\<bar> < float32_overflow"
  shows "list_all (\<lambda>y. \<not> js_gt (js_abs y) (Fin (9 / 10))) (applyPostProcessing_js (map Fin s))"
proof -
  have "\<forall>x \<in> set (applyPostProcessing s). \<bar>x\<bar> \<le> 9 / 10"
    unfolding applyPostProcessing_def by (blast intro: normalize_amplitude_bound)
  then show ?thesis
    by (simp add: applyPostProcessing_js_Fin [OF assms] list_all_iff not_less)
qed

text \<open>
  Claim C3. The claim bounds the peak of every post-processed signal by 0.9. The code
  does not keep this bound once a sample is not finite. With a NaN among the samples the
  peak computed by \<^verbatim>\<open>Math.max\<close> is NaN, the test \<^verbatim>\<open>maxAmplitude > 0.9\<close> is false and
  nothing is scaled: the finite samples 2 stay in the result. With an infinite sample
  the peak is infinite, the scale factor is 0 and the infinite sample becomes NaN.
\<close>

theorem postprocessing_nonfinite_peak:
  "applyPostProcessing_js [Fin 2, Fin 2, Fin 2, Fin 2, Fin 2, Fin 2, Fin 2, NaN] =
     [Fin 2, Fin 2, Fin 2, Fin 2, NaN, Fin 2, Fin 2, NaN]
   \<and> maxAmplitude_js (moving_average_js [Fin 2, Fin 2, Fin 2, Fin 2, Fin 2, Fin 2, Fin 2, NaN]) = NaN
   \<and> js_gt (js_abs (applyPostProcessing_js [Fin 2, Fin 2, Fin 2, Fin 2, Fin 2, Fin 2, Fin 2, NaN] ! 0))
        (Fin (9 / 10))
   \<and> applyPostProcessing_js [Fin 2, PInf] = [Fin 0, NaN]
   \<and> maxAmplitude_js (moving_average_js [Fin 2, PInf]) = PInf"
proof -
  have m: "moving_average_js [Fin 2, Fin 2, Fin 2, Fin 2, Fin 2, Fin 2, Fin 2, NaN] =
      [Fin 2, Fin 2, Fin 2, Fin 2, NaN, Fin 2, Fin 2, NaN]"
    by (simp add: moving_average_js_def copy_signal_js_id window_sum_js_def windowSize_def
        float32_overflow_def upt_rec numeral_eq_Suc)
  have p: "maxAmplitude_js [Fin 2, Fin 2, Fin 2, Fin 2, NaN, Fin 2, Fin 2, NaN] = NaN"
    by (simp add: maxAmplitude_js_def upt_rec)
  have a: "applyPostProcessing_js [Fin 2, Fin 2, Fin 2, Fin 2, Fin 2, Fin 2, Fin 2, NaN] =
      [Fin 2, Fin 2, Fin 2, Fin 2, NaN, Fin 2, Fin 2, NaN]"
    by (simp add: applyPostProcessing_js_def normalize_amplitude_js_def m p)
  have m2: "moving_average_js [Fin 2, PInf] = [Fin 2, PInf]"
    by (simp add: moving_average_js_def copy_signal_js_id windowSize_def)
  have p2: "maxAmplitude_js [Fin 2, PInf] = PInf"
    by (simp add: maxAmplitude_js_def upt_rec)
  have a2: "applyPostProcessing_js [Fin 2, PInf] = [Fin 0, NaN]"
    by (simp add: applyPostProcessing_js_def normalize_amplitude_js_def m2 p2 scale_signal_js_def
        float32_overflow_def upt_rec)
  show ?thesis
    by (simp add: a m p a2 m2 p2)
qed

section \<open>Properties of the adaptive filter\<close>

subsection \<open>The delay-line shift\<close>

lemma shift_foldr_length:
  "length (foldr (\<lambda>j b. b[j := g j b]) js buf) = length buf"
  by (induction js) simp_all

lemma shift_foldr_nth:
  assumes "0 < a" "L \<le> length buf" "k < length buf"
  shows "foldr (\<lambda>j b. b[j := b ! (j - 1)]) [a..<L] buf ! k =
           (if a \<le> k \<and> k < L then buf ! (k - 1) else buf ! k)"
  using assms
proof (induction "L - a" arbitrary: a k)
  case 0
  then show ?case by auto
next
  case (Suc d)
  then have lt: "a < L" by simp
  let ?r = "foldr (\<lambda>j b. b[j := b ! (j - 1)]) [Suc a..<L] buf"
  have len: "length ?r = length buf" by (rule shift_foldr_length)
  have ih: "\<And>j. j < length buf \<Longrightarrow> ?r ! j = (if Suc a \<le> j \<and> j < L then buf ! (j - 1) else buf ! j)"
    using Suc.hyps(1) [of "Suc a"] Suc.hyps(2) Suc.prems by simp
  have "foldr (\<lambda>j b. b[j := b ! (j - 1)]) [a..<L] buf = ?r[a := ?r ! (a - 1)]"
    using lt by (simp add: upt_rec [of a L])
  moreover have "?r ! (a - 1) = buf ! (a - 1)"
    using ih [of "a - 1"] Suc.prems lt by auto
  ultimately show ?case
    using ih [of k] Suc.prems lt len by (auto simp: nth_list_update)
qed

lemma shift_buffer_insert:
  assumes "length buf = L"
  shows "(shift_buffer L buf)[0 := x] = take L (x # buf)"
proof (rule nth_equalityI)
  show "length ((shift_buffer L buf)[0 := x]) = length (take L (x # buf))"
    using assms by (simp add: shift_buffer_def foldr_conv_fold [symmetric] shift_foldr_length)
next
  fix k assume "k < length ((shift_buffer L buf)[0 := x])"
  then have k: "k < L"
    using assms by (simp add: shift_buffer_def foldr_conv_fold [symmetric] shift_foldr_length)
  have "shift_buffer L buf ! k = (if 1 \<le> k then buf ! (k - 1) else buf ! k)"
    unfolding shift_buffer_def foldr_conv_fold [symmetric]
    using shift_foldr_nth [of 1 L buf k] assms k by simp
  then show "(shift_buffer L buf)[0 := x] ! k = take L (x # buf) ! k"
    using k assms
    by (cases k) (simp_all add: shift_buffer_def foldr_conv_fold [symmetric] shift_foldr_length)
qed

subsection \<open>The filter output\<close>

lemma fold_guarded_sum:
  "fold (\<lambda>k y. if P k then y + f k else y) ks (y0::real) =
     y0 + (\<Sum>k\<leftarrow>ks. if P k then f k else 0)"
  by (induction ks arbitrary: y0) simp_all

lemma filter_output_sum:
  assumes "\<forall>k<L. n < k \<longrightarrow> b ! k = 0"
  shows "filter_output L n w b = (\<Sum>k\<leftarrow>[0..<L]. w ! k * b ! k)"
proof -
  have "(\<Sum>k\<leftarrow>[0..<L]. if k \<le> n then w ! k * b ! k else 0) = (\<Sum>k\<leftarrow>[0..<L]. w ! k * b ! k)"
    using assms by (intro arg_cong [where f = sum_list] map_cong) auto
  then show ?thesis
    unfolding filter_output_def by (simp add: fold_guarded_sum)
qed

subsection \<open>The weight update\<close>

lemma update_weights_map:
  assumes "length w = L" "\<forall>k<L. n < k \<longrightarrow> b ! k = 0"
  shows "update_weights L n mu e b w = map (\<lambda>k. w ! k - mu * e * b ! k) [0..<L]"
proof -
  have fn: "(\<lambda>k w. if k \<le> n then w[k := w ! k - mu * e * b ! k] else w) =
            (\<lambda>k w. w[k := (if k \<le> n then w ! k - mu * e * b ! k else w ! k)])"
    by (intro ext) simp
  show ?thesis
  proof (rule nth_equalityI)
    show "length (update_weights L n mu e b w) = length (map (\<lambda>k. w ! k - mu * e * b ! k) [0..<L])"
      unfolding update_weights_def fn using assms by (simp add: fold_update_length)
  next
    fix k assume "k < length (update_weights L n mu e b w)"
    then have k: "k < L"
      unfolding update_weights_def fn using assms by (simp add: fold_update_length)
    have "update_weights L n mu e b w ! k = (if k \<le> n then w ! k - mu * e * b ! k else w ! k)"
      unfolding update_weights_def fn
      using fold_update_nth [of L w k "\<lambda>k x. if k \<le> n then x - mu * e * b ! k else x" 0] assms k
      by simp
    then show "update_weights L n mu e b w ! k = map (\<lambda>k. w ! k - mu * e * b ! k) [0..<L] ! k"
      using k assms by auto
  qed
qed

subsection \<open>The sample loop against the specification\<close>

lemma lms_step_fields:
  "outputSignal (lms_step inp mu L n s) = (outputSignal s)[n := inp ! n + prevOutput s]"
  "buffer (lms_step inp mu L n s) = (shift_buffer L (buffer s))[0 := inp ! n]"
  "prevOutput (lms_step inp mu L n s) =
     filter_output L n (weights s) ((shift_buffer L (buffer s))[0 := inp ! n])"
  "weights (lms_step inp mu L n s) =
     update_weights L n mu (inp ! n + prevOutput s)
       ((shift_buffer L (buffer s))[0 := inp ! n]) (weights s)"
  by (simp_all add: lms_step_def Let_def)

lemma lms_step_spec:
  assumes w: "length (weights s) = L" and b: "length (buffer s) = L"
      and z: "\<forall>k<L. n \<le> k \<longrightarrow> buffer s ! k = 0"
  shows "spec_step mu L (inp ! n)
           \<lparr>fs_weights = weights s, fs_delayLine = buffer s, fs_prevOutput = prevOutput s\<rparr> =
         (inp ! n + prevOutput s,
          \<lparr>fs_weights = weights (lms_step inp mu L n s),
           fs_delayLine = buffer (lms_step inp mu L n s),
           fs_prevOutput = prevOutput (lms_step inp mu L n s)\<rparr>)"
    and "length (weights (lms_step inp mu L n s)) = L"
    and "length (buffer (lms_step inp mu L n s)) = L"
    and "\<forall>k<L. Suc n \<le> k \<longrightarrow> buffer (lms_step inp mu L n s) ! k = 0"
proof -
  let ?d = "take L (inp ! n # buffer s)"
  have buf: "(shift_buffer L (buffer s))[0 := inp ! n] = ?d"
    using b by (rule shift_buffer_insert)
  have zd: "\<forall>k<L. n < k \<longrightarrow> ?d ! k = 0"
  proof (intro allI impI)
    fix k assume k: "k < L" "n < k"
    then obtain j where j: "k = Suc j" by (cases k) auto
    with k z show "?d ! k = 0" by simp
  qed
  have y: "filter_output L n (weights s) ?d = (\<Sum>k\<leftarrow>[0..<L]. weights s ! k * ?d ! k)"
    using zd by (rule filter_output_sum)
  have u: "update_weights L n mu (inp ! n + prevOutput s) ?d (weights s) =
           map (\<lambda>k. weights s ! k - mu * (inp ! n + prevOutput s) * ?d ! k) [0..<L]"
    using w zd by (rule update_weights_map)
  show "spec_step mu L (inp ! n)
           \<lparr>fs_weights = weights s, fs_delayLine = buffer s, fs_prevOutput = prevOutput s\<rparr> =
         (inp ! n + prevOutput s,
          \<lparr>fs_weights = weights (lms_step inp mu L n s),
           fs_delayLine = buffer (lms_step inp mu L n s),
           fs_prevOutput = prevOutput (lms_step inp mu L n s)\<rparr>)"
    by (simp add: spec_step_def Let_def lms_step_fields buf y u)
  show "length (weights (lms_step inp mu L n s)) = L"
    by (simp add: lms_step_fields buf u)
  show "length (buffer (lms_step inp mu L n s)) = L"
    using b by (simp add: lms_step_fields buf)
  show "\<forall>k<L. Suc n \<le> k \<longrightarrow> buffer (lms_step inp mu L n s) ! k = 0"
    using zd by (simp add: lms_step_fields buf Suc_le_eq)
qed

lemma spec_run_snoc:
  "spec_run mu L s (xs @ [x]) =
     (case spec_run mu L s xs of (es, s') \<Rightarrow>
        (case spec_step mu L x s' of (e, s'') \<Rightarrow> (es @ [e], s'')))"
  by (induction xs arbitrary: s) (simp_all split: prod.splits)

lemma lms_prefix:
  assumes "n \<le> length inp" "length out = length inp"
  shows "spec_run mu L (spec_init L) (take n inp) =
           (take n (outputSignal (fold (lms_step inp mu L) [0..<n] (lms_init L out))),
            \<lparr>fs_weights = weights (fold (lms_step inp mu L) [0..<n] (lms_init L out)),
             fs_delayLine = buffer (fold (lms_step inp mu L) [0..<n] (lms_init L out)),
             fs_prevOutput = prevOutput (fold (lms_step inp mu L) [0..<n] (lms_init L out))\<rparr>)
         \<and> length (outputSignal (fold (lms_step inp mu L) [0..<n] (lms_init L out))) = length inp
         \<and> length (weights (fold (lms_step inp mu L) [0..<n] (lms_init L out))) = L
         \<and> length (buffer (fold (lms_step inp mu L) [0..<n] (lms_init L out))) = L
         \<and> (\<forall>k<L. n \<le> k \<longrightarrow> buffer (fold (lms_step inp mu L) [0..<n] (lms_init L out)) ! k = 0)"
  using assms(1)
proof (induction n)
  case 0
  then show ?case using assms(2) by (simp add: lms_init_def spec_init_def)
next
  case (Suc n)
  let ?s = "fold (lms_step inp mu L) [0..<n] (lms_init L out)"
  from Suc have n: "n < length inp" by simp
  from Suc have run: "spec_run mu L (spec_init L) (take n inp) =
      (take n (outputSignal ?s),
       \<lparr>fs_weights = weights ?s, fs_delayLine = buffer ?s, fs_prevOutput = prevOutput ?s\<rparr>)"
    and lo: "length (outputSignal ?s) = length inp"
    and lw: "length (weights ?s) = L" and lb: "length (buffer ?s) = L"
    and z: "\<forall>k<L. n \<le> k \<longrightarrow> buffer ?s ! k = 0"
    by simp_all
  have st: "fold (lms_step inp mu L) [0..<Suc n] (lms_init L out) = lms_step inp mu L n ?s"
    by simp
  note sp = lms_step_spec [OF lw lb z, where mu = mu and inp = inp]
  have out: "take (Suc n) (outputSignal (lms_step inp mu L n ?s)) =
             take n (outputSignal ?s) @ [inp ! n + prevOutput ?s]"
    using n lo by (simp add: lms_step_fields(1) take_Suc_conv_app_nth)
  have "spec_run mu L (spec_init L) (take (Suc n) inp) =
          (take (Suc n) (outputSignal (lms_step inp mu L n ?s)),
           \<lparr>fs_weights = weights (lms_step inp mu L n ?s),
            fs_delayLine = buffer (lms_step inp mu L n ?s),
            fs_prevOutput = prevOutput (lms_step inp mu L n ?s)\<rparr>)"
    using n by (simp add: take_Suc_conv_app_nth spec_run_snoc run sp(1) out)
  moreover have "length (outputSignal (lms_step inp mu L n ?s)) = length inp"
    using lo by (simp add: lms_step_fields(1))
  ultimately show ?case
    unfolding st using sp(2,3,4) by blast
qed

text \<open>
  Claim C1. For an output array as long as the input, the sample loop of
  \<^verbatim>\<open>applyLMSFilter\<close> leaves in it exactly the samples that the specification's state
  machine emits, and ends in that machine's final weights, delay line and previous
  output; the output has the length of the input. \<^verbatim>\<open>applyLMSFilter\<close> then hands
  these samples to the post-processing.
\<close>

theorem lms_loop_refines_runLMS:
  assumes "length out = length inputSignal"
  shows "length (outputSignal (lms_loop inputSignal out mu L)) = length inputSignal
       \<and> runLMS inputSignal mu L =
           (outputSignal (lms_loop inputSignal out mu L),
            \<lparr>fs_weights = weights (lms_loop inputSignal out mu L),
             fs_delayLine = buffer (lms_loop inputSignal out mu L),
             fs_prevOutput = prevOutput (lms_loop inputSignal out mu L)\<rparr>)
       \<and> applyLMSFilter inputSignal out mu L = applyPostProcessing (fst (runLMS inputSignal mu L))"
  using lms_prefix [of "length inputSignal" inputSignal out mu L] assms
  by (simp add: lms_loop_def runLMS_def applyLMSFilter_def)

theorem lms_loop_refines_runLMS_witness:
  "outputSignal (lms_loop [1, 2, 3] [0, 0, 0] (1 / 2) 2) = [1, 2, 2]
   \<and> weights (lms_loop [1, 2, 3] [0, 0, 0] (1 / 2) 2) = [- (11 / 2), - 3]"
proof -
  have "runLMS [1, 2, 3] (1 / 2) 2 =
          ([1, 2, 2], \<lparr>fs_weights = [- (11 / 2), - 3], fs_delayLine = [3, 2], fs_prevOutput = - (19 / 2)\<rparr>)"
    by (simp add: runLMS_def spec_init_def spec_step_def Let_def upt_rec numeral_eq_Suc)
  then show ?thesis
    using lms_loop_refines_runLMS [of "[0, 0, 0]" "[1, 2, 3]" "1 / 2" 2] by simp
qed

subsection \<open>The all-zero signal\<close>

lemma lms_step_zero:
  assumes "n < N"
  shows "lms_step (replicate N 0) mu L n
           \<lparr>weights = replicate L 0, buffer = replicate L 0, prevOutput = 0, outputSignal = out\<rparr> =
         \<lparr>weights = replicate L 0, buffer = replicate L 0, prevOutput = 0,
          outputSignal = out[n := 0]\<rparr>"
proof -
  have buf: "(shift_buffer L (replicate L 0))[0 := (0::real)] = replicate L 0"
  proof -
    have "take L (0 # replicate L (0::real)) = replicate L 0"
      by (rule nth_equalityI) (auto simp: nth_Cons')
    then show ?thesis by (simp add: shift_buffer_insert)
  qed
  have y: "filter_output L n (replicate L 0) (replicate L 0) = 0"
    by (subst filter_output_sum) (simp_all add: interv_sum_list_conv_sum_set_nat)
  have w: "update_weights L n mu 0 (replicate L 0) (replicate L 0) = replicate L 0"
    by (subst update_weights_map) (simp_all add: map_nth [where xs = "replicate L (0::real)", simplified])
  show ?thesis
    using assms by (simp add: lms_step_def Let_def buf y w)
qed

lemma lms_zero_prefix:
  assumes "n \<le> N"
  shows "fold (lms_step (replicate N 0) mu L) [0..<n] (lms_init L out) =
         \<lparr>weights = replicate L 0, buffer = replicate L 0, prevOutput = 0,
          outputSignal = replicate (min n (length out)) 0 @ drop n out\<rparr>"
  using assms
proof (induction n)
  case 0
  then show ?case by (simp add: lms_init_def)
next
  case (Suc n)
  then have n: "n < N" by simp
  have upd: "(replicate (min n (length out)) (0::real) @ drop n out)[n := 0] =
             replicate (min (Suc n) (length out)) 0 @ drop (Suc n) out"
  proof (cases "n < length out")
    case True
    then have "drop n out = out ! n # drop (Suc n) out" by (simp add: Cons_nth_drop_Suc)
    with True show ?thesis
      by (simp add: list_update_append min_def replicate_append_same)
  next
    case False
    then show ?thesis by (simp add: min_def list_update_beyond)
  qed
  from Suc n show ?case
    by (simp add: lms_step_zero upd)
qed

lemma moving_average_zero: "moving_average (replicate N 0) = replicate N 0"
proof (rule nth_equalityI)
  show "length (moving_average (replicate N 0)) = length (replicate N (0::real))"
    by (simp add: moving_average_length)
next
  fix i assume "i < length (moving_average (replicate N 0))"
  then have "i < N" by (simp add: moving_average_length)
  then show "moving_average (replicate N 0) ! i = replicate N 0 ! i"
    by (simp add: moving_average_nth)
qed

lemma applyPostProcessing_zero: "applyPostProcessing (replicate N 0) = replicate N 0"
proof -
  have "maxAmplitude (replicate N 0) \<le> 0"
    by (rule maxAmplitude_le) simp_all
  then have "maxAmplitude (replicate N 0) = 0"
    using maxAmplitude_nonneg [of "replicate N 0"] by simp
  then show ?thesis
    by (simp add: applyPostProcessing_def moving_average_zero normalize_amplitude_def)
qed

text \<open>
  Claim C4. On the all-zero input of length \<open>N\<close>, for every step size and filter
  length, the sample loop writes the all-zero output and leaves the weights and the
  previous output at zero; the post-processing keeps the zeros, so
  \<^verbatim>\<open>applyLMSFilter\<close> returns the all-zero signal too.
\<close>

theorem lms_zero_signal:
  assumes "length out = N"
  shows "outputSignal (lms_loop (replicate N 0) out mu L) = replicate N 0
       \<and> weights (lms_loop (replicate N 0) out mu L) = replicate L 0
       \<and> prevOutput (lms_loop (replicate N 0) out mu L) = 0
       \<and> applyLMSFilter (replicate N 0) out mu L = replicate N 0"
  using assms lms_zero_prefix [of N N mu L out]
  by (simp add: lms_loop_def applyLMSFilter_def applyPostProcessing_zero)

theorem lms_zero_signal_witness:
  "applyLMSFilter [0, 0, 0] [5, 6, 7] (1 / 2) 2 = [0, 0, 0]
   \<and> weights (lms_loop [0, 0, 0] [5, 6, 7] (1 / 2) 2) = [0, 0]"
  using lms_zero_signal [of "[5, 6, 7]" 3 "1 / 2" 2]
  by (simp add: numeral_eq_Suc)

section \<open>Properties of the orchestrator\<close>

lemma lms_fold_output_length:
  "length (outputSignal (fold (lms_step inp mu L) ns s)) = length (outputSignal s)"
  by (induction ns arbitrary: s) (simp_all add: lms_step_fields(1))

lemma applyPostProcessing_length: "length (applyPostProcessing signal) = length signal"
  by (simp add: applyPostProcessing_def normalize_amplitude_def scale_signal_map
      moving_average_length Let_def)

lemma applyLMSFilter_length: "length (applyLMSFilter inp out mu L) = length out"
  by (simp add: applyLMSFilter_def applyPostProcessing_length lms_loop_def
      lms_fold_output_length lms_init_def)

lemma switch_noiseType_length: "length (switch_noiseType t inp out) = length out"
  by (simp add: switch_noiseType_def applyLMSFilter_length)

lemma process_channel_fields:
  "channelData (process_channel nt ob c pb) =
     (channelData pb)[c := switch_noiseType (toLowerCase nt) (channelData ob ! c) (channelData pb ! c)]"
  "frameLength (process_channel nt ob c pb) = frameLength pb"
  "sampleRate (process_channel nt ob c pb) = sampleRate pb"
  by (simp_all add: process_channel_def Let_def getChannelData_def)

lemma process_fold_shape:
  "frameLength (fold (process_channel nt ob) cs pb) = frameLength pb"
  "sampleRate (fold (process_channel nt ob) cs pb) = sampleRate pb"
  "length (channelData (fold (process_channel nt ob) cs pb)) = length (channelData pb)"
  by (induction cs arbitrary: pb) (simp_all add: process_channel_fields)

lemma process_fold_channels:
  assumes "n \<le> length (channelData pb)" "c < length (channelData pb)"
  shows "channelData (fold (process_channel nt ob) [0..<n] pb) ! c =
           (if c < n
            then switch_noiseType (toLowerCase nt) (channelData ob ! c) (channelData pb ! c)
            else channelData pb ! c)"
  using assms
proof (induction n arbitrary: c)
  case 0
  then show ?case by simp
next
  case (Suc n)
  let ?s = "fold (process_channel nt ob) [0..<n] pb"
  have len: "length (channelData ?s) = length (channelData pb)"
    by (rule process_fold_shape)
  have ih: "\<And>j. j < length (channelData pb) \<Longrightarrow> channelData ?s ! j =
      (if j < n then switch_noiseType (toLowerCase nt) (channelData ob ! j) (channelData pb ! j)
       else channelData pb ! j)"
    using Suc by simp
  have "channelData (fold (process_channel nt ob) [0..<Suc n] pb) =
          (channelData ?s)[n := switch_noiseType (toLowerCase nt) (channelData ob ! n) (channelData ?s ! n)]"
    by (simp add: process_channel_fields)
  then show ?case
    using Suc.prems len ih [of c] ih [of n]
    by (auto simp: nth_list_update less_Suc_eq)
qed

lemma processAudio_channel:
  assumes "c < numberOfChannels b"
  shows "getChannelData (processAudio b nt) c =
           switch_noiseType (toLowerCase nt) (getChannelData b c) (replicate (frameLength b) 0)"
  using assms process_fold_channels [of "numberOfChannels b"
      "createBuffer (numberOfChannels b) (frameLength b) (sampleRate b)" c nt b]
  by (simp add: processAudio_def getChannelData_def createBuffer_def numberOfChannels_def)

lemma processAudio_shape:
  "numberOfChannels (processAudio b nt) = numberOfChannels b"
  "frameLength (processAudio b nt) = frameLength b"
  "sampleRate (processAudio b nt) = sampleRate b"
  by (simp_all add: processAudio_def process_fold_shape numberOfChannels_def createBuffer_def)

lemma processAudio_channel_length:
  assumes "c < numberOfChannels b"
  shows "length (getChannelData (processAudio b nt) c) = frameLength b"
  using assms by (simp add: processAudio_channel switch_noiseType_length)

text \<open>
  Claim C2. For a valid buffer and any noise type, the processed buffer has the channel
  count, the length and the sample rate of the original, each of its channels is as long
  as the matching channel of the original, and it is a valid buffer again.
\<close>

theorem processAudio_preserves_shape:
  assumes "valid_buffer b"
  shows "numberOfChannels (processAudio b nt) = numberOfChannels b
       \<and> frameLength (processAudio b nt) = frameLength b
       \<and> sampleRate (processAudio b nt) = sampleRate b
       \<and> (\<forall>c < numberOfChannels b.
            length (getChannelData (processAudio b nt) c) = length (getChannelData b c))
       \<and> valid_buffer (processAudio b nt)"
proof -
  have chan: "\<forall>c < numberOfChannels b. length (getChannelData b c) = frameLength b"
    using assms by (simp add: valid_buffer_def list_all_length numberOfChannels_def getChannelData_def)
  have "list_all (\<lambda>c. length c = frameLength b) (channelData (processAudio b nt))"
    unfolding list_all_length
    using processAudio_channel_length [of _ b nt] processAudio_shape(1) [of b nt]
    by (simp add: numberOfChannels_def getChannelData_def)
  then have "valid_buffer (processAudio b nt)"
    using assms by (simp add: valid_buffer_def processAudio_shape)
  then show ?thesis
    using chan by (simp add: processAudio_shape processAudio_channel_length)
qed

theorem processAudio_preserves_shape_witness:
  "numberOfChannels (processAudio
      \<lparr>channelData = [[1, 2, 3], [4, 5, 6]], frameLength = 3, sampleRate = 44100\<rparr> ''Traffic'') = 2
   \<and> frameLength (processAudio
      \<lparr>channelData = [[1, 2, 3], [4, 5, 6]], frameLength = 3, sampleRate = 44100\<rparr> ''Traffic'') = 3
   \<and> sampleRate (processAudio
      \<lparr>channelData = [[1, 2, 3], [4, 5, 6]], frameLength = 3, sampleRate = 44100\<rparr> ''Traffic'') = 44100
   \<and> length (getChannelData (processAudio
      \<lparr>channelData = [[1, 2, 3], [4, 5, 6]], frameLength = 3, sampleRate = 44100\<rparr> ''Traffic'') 1) = 3"
proof -
  have v: "valid_buffer \<lparr>channelData = [[1, 2, 3], [4, 5, 6]], frameLength = 3, sampleRate = 44100\<rparr>"
    by (simp add: valid_buffer_def numberOfChannels_def)
  show ?thesis
    using processAudio_preserves_shape [OF v, of "''Traffic''"]
    by (simp add: numberOfChannels_def getChannelData_def)
qed

text \<open>
  Claim C9. Channel \<open>i\<close> of the processed buffer is the channel that processing the
  single-channel buffer holding only channel \<open>i\<close> gives, and it is the same for every
  buffer of the same length with the same channel \<open>i\<close>, whatever its other channels
  are: it is the filter run on channel \<open>i\<close> into a fresh zero-filled array, from its own
  zero-initialised weights and delay line.
\<close>

theorem processAudio_channel_independent:
  assumes "i < numberOfChannels b"
  shows "getChannelData (processAudio b nt) i =
           getChannelData (processAudio (b\<lparr>channelData := [getChannelData b i]\<rparr>) nt) 0
       \<and> (\<forall>b'. i < numberOfChannels b' \<and> frameLength b' = frameLength b
                \<and> getChannelData b' i = getChannelData b i
              \<longrightarrow> getChannelData (processAudio b' nt) i = getChannelData (processAudio b nt) i)
       \<and> getChannelData (processAudio b nt) i =
           switch_noiseType (toLowerCase nt) (getChannelData b i) (replicate (frameLength b) 0)"
proof -
  let ?single = "b\<lparr>channelData := [getChannelData b i]\<rparr>"
  have one: "0 < numberOfChannels ?single" by (simp add: numberOfChannels_def)
  have "getChannelData ?single 0 = getChannelData b i" by (simp add: getChannelData_def)
  then have "getChannelData (processAudio ?single nt) 0 = getChannelData (processAudio b nt) i"
    using assms by (simp add: processAudio_channel [OF one] processAudio_channel)
  moreover have "getChannelData (processAudio b' nt) i = getChannelData (processAudio b nt) i"
    if "i < numberOfChannels b'" "frameLength b' = frameLength b"
       "getChannelData b' i = getChannelData b i" for b'
    using that assms by (simp add: processAudio_channel)
  ultimately show ?thesis using assms by (simp add: processAudio_channel)
qed

theorem processAudio_channel_independent_witness:
  "getChannelData (processAudio
      \<lparr>channelData = [[1, 2, 3], [4, 5, 6]], frameLength = 3, sampleRate = 44100\<rparr> ''Traffic'') 1 =
   getChannelData (processAudio
      \<lparr>channelData = [[4, 5, 6]], frameLength = 3, sampleRate = 44100\<rparr> ''Traffic'') 0
   \<and> getChannelData (processAudio
      \<lparr>channelData = [[7, 8, 9], [4, 5, 6], [0, 0, 0]], frameLength = 3, sampleRate = 8000\<rparr> ''Traffic'') 1 =
     getChannelData (processAudio
      \<lparr>channelData = [[1, 2, 3], [4, 5, 6]], frameLength = 3, sampleRate = 44100\<rparr> ''Traffic'') 1"
  using processAudio_channel_independent
    [of 1 "\<lparr>channelData = [[1, 2, 3], [4, 5, 6]], frameLength = 3, sampleRate = 44100\<rparr>" "''Traffic''"]
  by (simp add: numberOfChannels_def getChannelData_def)

section \<open>Properties of the feature extraction\<close>

lemma fold_plus_sum:
  "fold (\<lambda>x s. s + h x) xs (a::real) = a + (\<Sum>x\<leftarrow>xs. h x)"
  by (induction xs arbitrary: a) simp_all

lemma lag_correlation_sum:
  "lag_correlation cd lag = (\<Sum>i | i < 1024 \<and> i + lag < length cd. cd ! i * cd ! (i + lag))"
proof -
  have "lag_correlation cd lag =
          (\<Sum>i\<leftarrow>[0..<1024]. if i + lag < length cd then cd ! i * cd ! (i + lag) else 0)"
    unfolding lag_correlation_def frameSize_def by (simp add: fold_guarded_sum)
  also have "\<dots> = (\<Sum>i\<in>{0..<1024}. if i + lag < length cd then cd ! i * cd ! (i + lag) else 0)"
    by (simp add: interv_sum_list_conv_sum_set_nat)
  also have "\<dots> = (\<Sum>i\<in>{i \<in> {0..<1024}. i + lag < length cd}. cd ! i * cd ! (i + lag))"
    by (rule sum.inter_filter [symmetric]) simp
  also have "{i \<in> {0..<1024}. i + lag < length cd} = {i. i < 1024 \<and> i + lag < length cd}"
    by auto
  finally show ?thesis .
qed

lemma sumCorrelation_sum:
  "sumCorrelation cd = (\<Sum>lag = 1..<1024. \<bar>lag_correlation cd lag\<bar>)"
  unfolding sumCorrelation_def frameSize_def
  by (simp add: fold_plus_sum interv_sum_list_conv_sum_set_nat)

text \<open>
  Claim C8. The periodicity feature is the sum, over the lags from 1 to 1023, of the
  absolute value of the sum of \<open>signal[i] * signal[i + lag]\<close> over the \<open>i\<close> below 1024
  with \<open>i + lag\<close> inside the signal, divided by 1024. The formula holds for a signal of
  any length: a shorter signal has fewer terms.
\<close>

theorem periodicity_formula:
  "periodicity (extractFeatures b r) =
     (\<Sum>lag = 1..<1024.
        \<bar>\<Sum>i | i < 1024 \<and> i + lag < length (getChannelData b 0).
            getChannelData b 0 ! i * getChannelData b 0 ! (i + lag)\<bar>) / 1024"
  by (simp add: extractFeatures_def Let_def sumCorrelation_sum lag_correlation_sum frameSize_def)

theorem periodicity_formula_witness:
  "periodicity (extractFeatures
      \<lparr>channelData = [[1, 2, 3]], frameLength = 3, sampleRate = 44100\<rparr> (1 / 2)) = 11 / 1024"
proof -
  let ?cd = "[1, 2, 3 :: real]"
  have s1: "{i. i < 1024 \<and> i + 1 < length ?cd} = {0, 1}" by auto
  have s2: "{i. i < 1024 \<and> i + 2 < length ?cd} = {0}" by auto
  have s3: "\<And>lag. 3 \<le> lag \<Longrightarrow> {i. i < 1024 \<and> i + lag < length ?cd} = {}" by auto
  have split: "{1..<1024::nat} = {1, 2} \<union> {3..<1024}" by auto
  have "(\<Sum>lag = 1..<1024. \<bar>\<Sum>i | i < 1024 \<and> i + lag < length ?cd. ?cd ! i * ?cd ! (i + lag)\<bar>) =
        (\<Sum>lag \<in> {1, 2}. \<bar>\<Sum>i | i < 1024 \<and> i + lag < length ?cd. ?cd ! i * ?cd ! (i + lag)\<bar>)
        + (\<Sum>lag = 3..<1024. \<bar>\<Sum>i | i < 1024 \<and> i + lag < length ?cd. ?cd ! i * ?cd ! (i + lag)\<bar>)"
    unfolding split by (rule sum.union_disjoint) auto
  also have "(\<Sum>lag = 3..<1024. \<bar>\<Sum>i | i < 1024 \<and> i + lag < length ?cd. ?cd ! i * ?cd ! (i + lag)\<bar>) = 0"
    by (rule sum.neutral) (simp add: s3)
  also have "(\<Sum>lag \<in> {1, 2}. \<bar>\<Sum>i | i < 1024 \<and> i + lag < length ?cd. ?cd ! i * ?cd ! (i + lag)\<bar>) = 11"
    using s1 s2 by simp
  finally show ?thesis
    using periodicity_formula
      [of "\<lparr>channelData = [[1, 2, 3]], frameLength = 3, sampleRate = 44100\<rparr>" "1 / 2"]
    by (simp add: getChannelData_def)
qed

section \<open>Properties of the classifier\<close>

lemma toFixed2_unit:
  assumes "0 \<le> x" "x \<le> 1"
  shows "toFixed2 x = real_of_int \<lfloor>x * 100 + 1 / 2\<rfloor> / 100"
    and "0 \<le> \<lfloor>x * 100 + 1 / 2\<rfloor>" and "\<lfloor>x * 100 + 1 / 2\<rfloor> \<le> 100"
proof -
  have small: "\<not> \<bar>x\<bar> \<ge> 10 ^ 21" using assms by simp
  show "toFixed2 x = real_of_int \<lfloor>x * 100 + 1 / 2\<rfloor> / 100"
  proof (cases "x = 0")
    case True
    then show ?thesis by (simp add: toFixed2_def)
  next
    case False
    with assms have "sgn x = 1" "\<bar>x\<bar> = x" by simp_all
    with small show ?thesis by (simp add: toFixed2_def)
  qed
  show "0 \<le> \<lfloor>x * 100 + 1 / 2\<rfloor>" using assms by simp
  have "x * 100 + 1 / 2 < 101" using assms by simp
  then have "\<lfloor>x * 100 + 1 / 2\<rfloor> < 101" by (simp add: floor_less_iff)
  then show "\<lfloor>x * 100 + 1 / 2\<rfloor> \<le> 100" by simp
qed

lemma type_bonus_range: "0 \<le> type_bonus t f" "type_bonus t f \<le> 6 / 10"
  by (simp_all add: type_bonus_def)

lemma type_score_range:
  assumes "0 \<le> r" "r < 1"
  shows "\<exists>k::int. 0 \<le> k \<and> k \<le> 100 \<and> type_score f t r = real_of_int k / 100"
proof -
  let ?x = "min 1 (1 / 10 + r * (2 / 10) + type_bonus t f)"
  have "0 \<le> ?x" "?x \<le> 1"
    using assms type_bonus_range(1) [of t f] by simp_all
  from toFixed2_unit [OF this] show ?thesis
    by (auto simp: type_score_def Let_def)
qed

lemma toFixed2_near:
  assumes "0 \<le> x" "x \<le> 1"
  shows "\<bar>toFixed2 x - x\<bar> \<le> 1 / 200"
proof -
  define k where "k = real_of_int \<lfloor>x * 100 + 1 / 2\<rfloor>"
  have "k \<le> x * 100 + 1 / 2" and "x * 100 + 1 / 2 < k + 1"
    unfolding k_def by linarith+
  then have "k / 100 - x \<le> 1 / 200" and "- (k / 100 - x) \<le> 1 / 200"
    by simp_all
  then have "\<bar>k / 100 - x\<bar> \<le> 1 / 200"
    by (rule abs_leI)
  then show ?thesis
    unfolding toFixed2_unit(1) [OF assms] k_def .
qed

lemma type_score_near:
  assumes "0 \<le> r" "r < 1"
  shows "\<bar>type_score f t r - min 1 (1 / 10 + r * (2 / 10) + type_bonus t f)\<bar> \<le> 1 / 200"
proof -
  have "0 \<le> min 1 (1 / 10 + r * (2 / 10) + type_bonus t f)"
    using assms type_bonus_range(1) [of t f] by simp
  then show ?thesis
    unfolding type_score_def Let_def by (intro toFixed2_near) simp_all
qed

lemma NOISE_TYPES_length: "length NOISE_TYPES = 6"
  by (simp add: NOISE_TYPES_def)

lemma simulateModelPrediction_entries:
  "simulateModelPrediction f rnd =
     [(''Lawnmower'', type_score f ''Lawnmower'' (rnd 0)),
      (''Traffic'', type_score f ''Traffic'' (rnd 1)),
      (''Construction'', type_score f ''Construction'' (rnd 2)),
      (''Fan/HVAC'', type_score f ''Fan/HVAC'' (rnd 3)),
      (''Crowd'', type_score f ''Crowd'' (rnd 4)),
      (''Wind'', type_score f ''Wind'' (rnd 5))]"
  by (simp add: simulateModelPrediction_def NOISE_TYPES_def upt_rec numeral_eq_Suc)

text \<open>
  Claim C7. When every random draw lies in \<open>[0, 1)\<close>, so that every base score lies in
  \<open>[0.1, 0.3)\<close>, the scores object has one entry per noise type, in order, and every
  score is a whole number of hundredths between 0 and 1. Each score is the hundredth
  next to the raw score clamped by \<open>min 1\<close>: it lies within half a hundredth of it, up
  to the rounding error of the additions, which the code makes in binary64 and which
  is far below \<^verbatim>\<open>10^-9\<close>.
\<close>

theorem scores_in_unit_interval:
  assumes "\<forall>i<6. 0 \<le> rnd i \<and> rnd i < 1"
  shows "map fst (simulateModelPrediction f rnd) = NOISE_TYPES
       \<and> (\<forall>(t, v) \<in> set (simulateModelPrediction f rnd).
            0 \<le> v \<and> v \<le> 1 \<and> (\<exists>k::int. 0 \<le> k \<and> k \<le> 100 \<and> v = real_of_int k / 100))
       \<and> (\<forall>i<6. \<bar>snd (simulateModelPrediction f rnd ! i)
                    - min 1 (1 / 10 + rnd i * (2 / 10) + type_bonus (NOISE_TYPES ! i) f)\<bar>
                  \<le> 1 / 200 + 1 / 10 ^ 9)"
proof -
  have keys: "map fst (simulateModelPrediction f rnd) = NOISE_TYPES"
    by (simp add: simulateModelPrediction_def comp_def map_nth)
  have "0 \<le> v \<and> v \<le> 1 \<and> (\<exists>k::int. 0 \<le> k \<and> k \<le> 100 \<and> v = real_of_int k / 100)"
    if "(t, v) \<in> set (simulateModelPrediction f rnd)" for t v
  proof -
    from that obtain i where i: "i < 6" and v: "v = type_score f (NOISE_TYPES ! i) (rnd i)"
      by (auto simp: simulateModelPrediction_def NOISE_TYPES_length)
    from assms i have "0 \<le> rnd i" "rnd i < 1" by simp_all
    from type_score_range [OF this, of f "NOISE_TYPES ! i"] obtain k :: int
      where k: "0 \<le> k" "k \<le> 100" "v = real_of_int k / 100" using v by auto
    then have "0 \<le> v" "v \<le> 1" by simp_all
    with k show ?thesis by blast
  qed
  moreover have "\<bar>snd (simulateModelPrediction f rnd ! i)
                    - min 1 (1 / 10 + rnd i * (2 / 10) + type_bonus (NOISE_TYPES ! i) f)\<bar>
                  \<le> 1 / 200 + 1 / 10 ^ 9" if "i < 6" for i
  proof -
    from assms that have "0 \<le> rnd i" "rnd i < 1" by simp_all
    from type_score_near [OF this, of f "NOISE_TYPES ! i"]
    have "\<bar>type_score f (NOISE_TYPES ! i) (rnd i)
            - min 1 (1 / 10 + rnd i * (2 / 10) + type_bonus (NOISE_TYPES ! i) f)\<bar> \<le> 1 / 200" .
    moreover have "snd (simulateModelPrediction f rnd ! i) = type_score f (NOISE_TYPES ! i) (rnd i)"
      using that by (simp add: simulateModelPrediction_def NOISE_TYPES_length)
    ultimately show ?thesis by simp
  qed
  ultimately show ?thesis using keys by blast
qed

theorem scores_in_unit_interval_witness:
  "map fst (simulateModelPrediction
      \<lparr>energy = 1 / 100, zeroCrossings = 0, spectralCentroid = 0, spectralFlatness = 9 / 20,
       periodicity = 1023 / 100\<rparr> (\<lambda>i. 1 / 2)) = NOISE_TYPES
   \<and> snd (simulateModelPrediction
      \<lparr>energy = 1 / 100, zeroCrossings = 0, spectralCentroid = 0, spectralFlatness = 9 / 20,
       periodicity = 1023 / 100\<rparr> (\<lambda>i. 1 / 2) ! 3) = 4 / 5
   \<and> snd (simulateModelPrediction
      \<lparr>energy = 1 / 100, zeroCrossings = 0, spectralCentroid = 0, spectralFlatness = 9 / 20,
       periodicity = 1023 / 100\<rparr> (\<lambda>i. 1 / 2) ! 1) = 1 / 5"
proof -
  let ?f = "\<lparr>energy = 1 / 100, zeroCrossings = 0, spectralCentroid = 0, spectralFlatness = 9 / 20,
       periodicity = 1023 / 100\<rparr>"
  have d: "\<forall>i<6. (0::real) \<le> (\<lambda>i. 1 / 2) i \<and> (\<lambda>i. 1 / 2) i < (1::real)" by simp
  note t = scores_in_unit_interval [OF d, of ?f]
  have "map fst (simulateModelPrediction ?f (\<lambda>i. 1 / 2)) = NOISE_TYPES"
    using t by blast
  moreover have "snd (simulateModelPrediction ?f (\<lambda>i. 1 / 2) ! 3) = 4 / 5"
    by (simp add: simulateModelPrediction_entries type_score_def type_bonus_def toFixed2_def)
  moreover have "snd (simulateModelPrediction ?f (\<lambda>i. 1 / 2) ! 1) = 1 / 5"
    by (simp add: simulateModelPrediction_entries type_score_def type_bonus_def toFixed2_def)
  ultimately show ?thesis by blast
qed

text \<open>
  Claim C10. The classification reads only the first channel: two buffers with the same
  first channel give, for the same random draws, the same features, scores and detected
  type, whatever their other channels, their number of channels and their sample rate.
\<close>

theorem classifyNoise_reads_first_channel:
  assumes "getChannelData b1 0 = getChannelData b2 0"
  shows "classifyNoise b1 rnd = classifyNoise b2 rnd"
  using assms by (simp add: classifyNoise_def extractFeatures_def)

theorem classifyNoise_reads_first_channel_witness:
  "classifyNoise \<lparr>channelData = [[1, - 1, 1], [0, 0, 0]], frameLength = 3, sampleRate = 44100\<rparr>
       (\<lambda>i. 1 / 2) =
   classifyNoise \<lparr>channelData = [[1, - 1, 1], [5, 6, 7], [8, 9, 10]], frameLength = 3, sampleRate = 8000\<rparr>
       (\<lambda>i. 1 / 2)"
  by (rule classifyNoise_reads_first_channel) (simp add: getChannelData_def)

lemma toFixed2_mono:
  assumes "0 \<le> x" "x \<le> y" "y \<le> 1"
  shows "toFixed2 x \<le> toFixed2 y"
proof -
  have "\<lfloor>x * 100 + 1 / 2\<rfloor> \<le> \<lfloor>y * 100 + 1 / 2\<rfloor>"
    using assms by (intro floor_mono) simp
  then show ?thesis
    using assms by (simp add: toFixed2_unit(1) divide_right_mono)
qed

lemma toFixed2_values: "toFixed2 (3 / 10) = 3 / 10" "toFixed2 (7 / 10) = 7 / 10"
  by (simp_all add: toFixed2_def)

lemma type_score_le:
  assumes "0 \<le> r" "r < 1" "0 \<le> type_bonus t f" "type_bonus t f \<le> c" "c + 3 / 10 \<le> 1"
  shows "type_score f t r \<le> toFixed2 (c + 3 / 10)"
proof -
  have "min 1 (1 / 10 + r * (2 / 10) + type_bonus t f) \<le> c + 3 / 10"
    using assms by simp
  moreover have "0 \<le> min 1 (1 / 10 + r * (2 / 10) + type_bonus t f)"
    using assms by simp
  ultimately show ?thesis
    using assms(5) unfolding type_score_def Let_def by (intro toFixed2_mono)
qed

lemma type_score_ge:
  assumes "0 \<le> r" "0 \<le> c" "c \<le> type_bonus t f" "c + 1 / 10 \<le> 1"
  shows "toFixed2 (c + 1 / 10) \<le> type_score f t r"
proof -
  have "c + 1 / 10 \<le> min 1 (1 / 10 + r * (2 / 10) + type_bonus t f)"
    using assms by simp
  moreover have "0 \<le> c + 1 / 10" using assms by simp
  ultimately show ?thesis
    unfolding type_score_def Let_def by (intro toFixed2_mono) simp_all
qed

lemma type_bonus_fan_scenario:
  assumes "energy f < 1 / 10" "zeroCrossings f < 2 / 10" "periodicity f > 6 / 10"
  shows "type_bonus ''Lawnmower'' f = 0" "type_bonus ''Traffic'' f = 0"
    "type_bonus ''Construction'' f = 0" "type_bonus ''Fan/HVAC'' f = 6 / 10"
    "type_bonus ''Crowd'' f = 0"
    "type_bonus ''Wind'' f = (if zeroCrossings f < 15 / 100 then 4 / 10 else 0)"
  using assms by (simp_all add: type_bonus_def)

subsection \<open>The first highest score wins\<close>

lemma pick_step_keep:
  assumes "\<forall>x \<in> set xs. snd x \<le> (h::real)"
  shows "fold (\<lambda>(type, score) (highestScore, detectedType).
             if score > highestScore then (score, type) else (highestScore, detectedType))
          xs (h, t) = (h, t)"
  using assms by (induction xs) (auto simp: not_less)

lemma pick_step_below:
  assumes "\<forall>x \<in> set xs. snd x < v" "h < (v::real)"
  shows "fst (fold (\<lambda>(type, score) (highestScore, detectedType).
             if score > highestScore then (score, type) else (highestScore, detectedType))
          xs (h, t)) < v"
  using assms by (induction xs arbitrary: h t) (auto split: prod.splits)

lemma pick_highest_first_max:
  assumes i: "i < length scores" and pos: "0 < snd (scores ! i)"
      and before: "\<forall>j<i. snd (scores ! j) < snd (scores ! i)"
      and all: "\<forall>j<length scores. snd (scores ! j) \<le> snd (scores ! i)"
  shows "pick_highest scores = (snd (scores ! i), fst (scores ! i))"
proof -
  let ?g = "\<lambda>(type, score) (highestScore, detectedType).
             if score > highestScore then (score, type) else (highestScore, detectedType)"
  let ?v = "snd (scores ! i)"
  have split: "scores = take i scores @ scores ! i # drop (Suc i) scores"
    using i by (simp add: id_take_nth_drop)
  obtain h t where ht: "fold ?g (take i scores) (0, []) = (h, t)" by (cases "fold ?g (take i scores) (0, [])")
  have "\<forall>x \<in> set (take i scores). snd x < ?v"
  proof
    fix x assume "x \<in> set (take i scores)"
    then obtain j where "j < i" "x = scores ! j"
      using i by (auto simp: in_set_conv_nth)
    with before show "snd x < ?v" by simp
  qed
  from pick_step_below [OF this pos, of "[]"] ht have h: "h < ?v" by simp
  have after: "\<forall>x \<in> set (drop (Suc i) scores). snd x \<le> ?v"
  proof
    fix x assume "x \<in> set (drop (Suc i) scores)"
    then have "x \<in> set scores" by (rule in_set_dropD)
    then obtain j where "j < length scores" "x = scores ! j"
      by (auto simp: in_set_conv_nth)
    with all show "snd x \<le> ?v" by simp
  qed
  have "pick_highest scores = fold ?g (drop (Suc i) scores) (?g (scores ! i) (h, t))"
    unfolding pick_highest_def by (subst split) (simp add: ht del: append_take_drop_id)
  also have "?g (scores ! i) (h, t) = (?v, fst (scores ! i))"
    using h by (cases "scores ! i") simp
  also have "fold ?g (drop (Suc i) scores) (?v, fst (scores ! i)) = (?v, fst (scores ! i))"
    using after by (rule pick_step_keep)
  finally show ?thesis .
qed

subsection \<open>The features of a constant signal\<close>

lemma signal_energy_const:
  assumes "0 < N"
  shows "signal_energy (replicate N c) = c * c"
proof -
  have "fold (\<lambda>val sum. sum + val * val) (replicate N c) 0 = 0 + (\<Sum>x\<leftarrow>replicate N c. x * x)"
    by (rule fold_plus_sum)
  also have "\<dots> = real N * (c * c)"
    by (simp add: sum_list_replicate)
  finally show ?thesis
    using assms by (simp add: signal_energy_def)
qed

lemma fold_count_none:
  assumes "\<forall>i \<in> set is. \<not> P i"
  shows "fold (\<lambda>i z. if P i then z + 1 else z) is (z::real) = z"
  using assms by (induction "is") simp_all

lemma count_zero_crossings_const: "count_zero_crossings (replicate N c) = 0"
  unfolding count_zero_crossings_def
  by (rule fold_count_none) auto

lemma lag_correlation_const:
  assumes "2047 \<le> N" "lag < 1024"
  shows "lag_correlation (replicate N c) lag = 1024 * (c * c)"
proof -
  have set: "{i. i < 1024 \<and> i + lag < N} = {..<1024}"
    using assms by auto
  have "lag_correlation (replicate N c) lag = (\<Sum>i\<in>{..<1024::nat}. c * c)"
    unfolding lag_correlation_sum using assms
    by (simp add: set)
  then show ?thesis by simp
qed

lemma sumCorrelation_const:
  assumes "2047 \<le> N"
  shows "sumCorrelation (replicate N c) = 1023 * (1024 * (c * c))"
proof -
  have "sumCorrelation (replicate N c) = (\<Sum>lag = 1..<1024::nat. 1024 * (c * c))"
    unfolding sumCorrelation_sum using assms
    by (intro sum.cong) (simp_all add: lag_correlation_const abs_mult)
  then show ?thesis by simp
qed

lemma extractFeatures_const:
  assumes "2047 \<le> N"
  shows "extractFeatures \<lparr>channelData = [replicate N c], frameLength = N, sampleRate = sr\<rparr> r =
           \<lparr>energy = c * c, zeroCrossings = 0, spectralCentroid = 0,
            spectralFlatness = r * (5 / 10) + 2 / 10, periodicity = 1023 * (c * c)\<rparr>"
  using assms
  by (simp add: extractFeatures_def getChannelData_def Let_def signal_energy_const
      count_zero_crossings_const sumCorrelation_const frameSize_def)

subsection \<open>The steady-tone scenario\<close>

text \<open>
  Claim C5, as the code has it. When the extracted features have energy below 0.1, zero
  crossings below 0.2 and periodicity above 0.6, and every random draw lies in \<open>[0, 1)\<close>,
  the detected type is Fan/HVAC. Its score is the entry of Fan/HVAC in the scores, a
  whole number of hundredths within half a hundredth of \<open>min 1 (base + 0.6)\<close>, up to
  the rounding error of the binary64 additions. The predicates of Lawnmower, Traffic,
  Construction and Crowd do not match; the predicate of Wind matches as well exactly
  when the zero crossings are below 0.15, and its score does not exceed that of
  Fan/HVAC. The three scores before Fan/HVAC are strictly lower and no score is higher,
  so the first highest score wins.
\<close>

theorem fan_hvac_selected:
  fixes b :: AudioBuffer and rnd :: "nat \<Rightarrow> real"
  defines "f \<equiv> extractFeatures b (rnd 0)"
  defines "scores \<equiv> fst (snd (classifyNoise b rnd))"
  defines "fan \<equiv> snd (scores ! 3)"
  assumes draws: "\<forall>i<7. 0 \<le> rnd i \<and> rnd i < 1"
      and e: "energy f < 1 / 10" and z: "zeroCrossings f < 2 / 10" and p: "periodicity f > 6 / 10"
  shows "snd (snd (classifyNoise b rnd)) = ''Fan/HVAC''
       \<and> pick_highest scores = (fan, ''Fan/HVAC'')
       \<and> map_of scores ''Fan/HVAC'' = Some fan
       \<and> (\<exists>k::int. 0 \<le> k \<and> k \<le> 100 \<and> fan = real_of_int k / 100)
       \<and> \<bar>fan - min 1 (1 / 10 + rnd 4 * (2 / 10) + 6 / 10)\<bar> \<le> 1 / 200 + 1 / 10 ^ 9
       \<and> type_bonus ''Fan/HVAC'' f = 6 / 10
       \<and> type_bonus ''Lawnmower'' f = 0 \<and> type_bonus ''Traffic'' f = 0
       \<and> type_bonus ''Construction'' f = 0 \<and> type_bonus ''Crowd'' f = 0
       \<and> type_bonus ''Wind'' f = (if zeroCrossings f < 15 / 100 then 4 / 10 else 0)
       \<and> (\<forall>j<3. snd (scores ! j) < fan) \<and> (\<forall>j<6. snd (scores ! j) \<le> fan)"
proof -
  note bonus = type_bonus_fan_scenario [OF e z p]
  have r: "\<And>i. i < 7 \<Longrightarrow> 0 \<le> rnd i" "\<And>i. i < 7 \<Longrightarrow> rnd i < 1"
    using draws by simp_all
  have sc: "scores =
     [(''Lawnmower'', type_score f ''Lawnmower'' (rnd (Suc 0))),
      (''Traffic'', type_score f ''Traffic'' (rnd 2)),
      (''Construction'', type_score f ''Construction'' (rnd 3)),
      (''Fan/HVAC'', type_score f ''Fan/HVAC'' (rnd 4)),
      (''Crowd'', type_score f ''Crowd'' (rnd 5)),
      (''Wind'', type_score f ''Wind'' (rnd 6))]"
    unfolding scores_def f_def classifyNoise_def Let_def
    by (simp add: simulateModelPrediction_entries numeral_2_eq_2 [symmetric])
  have fan: "type_score f ''Fan/HVAC'' (rnd 4) = fan"
    by (simp add: fan_def sc)
  have fan_ge: "7 / 10 \<le> fan"
    using type_score_ge [of "rnd 4" "6 / 10" "''Fan/HVAC''" f] r(1) [of 4] bonus
    by (simp add: fan toFixed2_values)
  have fan_k: "\<exists>k::int. 0 \<le> k \<and> k \<le> 100 \<and> fan = real_of_int k / 100"
    using type_score_range [of "rnd 4" f "''Fan/HVAC''"] r(1) [of 4] r(2) [of 4]
    by (simp add: fan)
  have fan_near: "\<bar>fan - min 1 (1 / 10 + rnd 4 * (2 / 10) + 6 / 10)\<bar> \<le> 1 / 200 + 1 / 10 ^ 9"
    using type_score_near [of "rnd 4" f "''Fan/HVAC''"] r(1) [of 4] r(2) [of 4]
    by (simp add: fan bonus)
  have low: "type_score f t (rnd i) \<le> 3 / 10" if "i < 7" "type_bonus t f = 0" for t i
    using type_score_le [of "rnd i" t f 0] r(1) [of i] r(2) [of i] that
    by (simp add: toFixed2_values)
  have wind: "type_score f ''Wind'' (rnd 6) \<le> 7 / 10"
    using type_score_le [of "rnd 6" "''Wind''" f "4 / 10"] r(1) [of 6] r(2) [of 6] bonus(6)
    by (simp add: toFixed2_values)
  have s0: "type_score f ''Lawnmower'' (rnd (Suc 0)) < fan"
    using low [of "Suc 0" "''Lawnmower''"] bonus fan_ge by simp
  have s1: "type_score f ''Traffic'' (rnd 2) < fan"
    using low [of 2 "''Traffic''"] bonus fan_ge by simp
  have s2: "type_score f ''Construction'' (rnd 3) < fan"
    using low [of 3 "''Construction''"] bonus fan_ge by simp
  have s4: "type_score f ''Crowd'' (rnd 5) \<le> fan"
    using low [of 5 "''Crowd''"] bonus fan_ge by simp
  have s5: "type_score f ''Wind'' (rnd 6) \<le> fan"
    using wind fan_ge by simp
  have n0: "snd (scores ! 0) < fan" and n1: "snd (scores ! 1) < fan"
    and n2: "snd (scores ! 2) < fan" and n3: "snd (scores ! 3) = fan"
    and n4: "snd (scores ! 4) \<le> fan" and n5: "snd (scores ! 5) \<le> fan"
    using s0 s1 s2 s4 s5 by (simp_all add: sc fan)
  have before: "\<forall>j<3. snd (scores ! j) < fan"
  proof (intro allI impI)
    fix j :: nat assume "j < 3"
    then have "j = 0 \<or> j = 1 \<or> j = 2" by auto
    with n0 n1 n2 show "snd (scores ! j) < fan" by blast
  qed
  have all: "\<forall>j<6. snd (scores ! j) \<le> fan"
  proof (intro allI impI)
    fix j :: nat assume "j < 6"
    then have "j = 0 \<or> j = 1 \<or> j = 2 \<or> j = 3 \<or> j = 4 \<or> j = 5" by auto
    with n0 n1 n2 n3 n4 n5 show "snd (scores ! j) \<le> fan" by force
  qed
  have pick: "pick_highest scores = (fan, ''Fan/HVAC'')"
    using pick_highest_first_max [of 3 scores] before all fan_ge n3
    by (simp add: sc)
  have "snd (snd (classifyNoise b rnd)) = snd (pick_highest scores)"
    by (simp add: scores_def classifyNoise_def Let_def)
  then have "snd (snd (classifyNoise b rnd)) = ''Fan/HVAC''"
    by (simp add: pick)
  moreover have "map_of scores ''Fan/HVAC'' = Some fan"
    by (simp add: sc fan)
  ultimately show ?thesis
    using pick bonus before all fan_k fan_near by simp
qed

theorem fan_hvac_selected_witness:
  "snd (snd (classifyNoise
      \<lparr>channelData = [replicate 2047 (1 / 10)], frameLength = 2047, sampleRate = 44100\<rparr>
      (\<lambda>i. 1 / 2))) = ''Fan/HVAC''
   \<and> pick_highest (fst (snd (classifyNoise
      \<lparr>channelData = [replicate 2047 (1 / 10)], frameLength = 2047, sampleRate = 44100\<rparr>
      (\<lambda>i. 1 / 2)))) = (4 / 5, ''Fan/HVAC'')"
proof -
  let ?b = "\<lparr>channelData = [replicate 2047 (1 / 10)], frameLength = 2047, sampleRate = 44100\<rparr>"
  have v: "snd (fst (snd (classifyNoise ?b (\<lambda>i. 1 / 2))) ! 3) = 4 / 5"
    by (simp add: classifyNoise_def Let_def extractFeatures_const simulateModelPrediction_entries
        type_score_def type_bonus_def toFixed2_def)
  show ?thesis
    using fan_hvac_selected [of "\<lambda>i. 1 / 2" ?b]
    by (simp add: extractFeatures_const v)
qed

text \<open>
  Claim C5 says that the predicate of Fan/HVAC is the only one that matches. For the
  constant signal 0.1 of 2047 samples the features meet the three conditions, and the
  predicate of Wind matches too: its score is the base score plus 0.4.
\<close>

theorem fan_hvac_not_only_match:
  "energy (extractFeatures
      \<lparr>channelData = [replicate 2047 (1 / 10)], frameLength = 2047, sampleRate = 44100\<rparr> (1 / 2)) < 1 / 10
   \<and> zeroCrossings (extractFeatures
      \<lparr>channelData = [replicate 2047 (1 / 10)], frameLength = 2047, sampleRate = 44100\<rparr> (1 / 2)) < 2 / 10
   \<and> periodicity (extractFeatures
      \<lparr>channelData = [replicate 2047 (1 / 10)], frameLength = 2047, sampleRate = 44100\<rparr> (1 / 2)) > 6 / 10
   \<and> type_bonus ''Fan/HVAC'' (extractFeatures
      \<lparr>channelData = [replicate 2047 (1 / 10)], frameLength = 2047, sampleRate = 44100\<rparr> (1 / 2)) = 6 / 10
   \<and> type_bonus ''Wind'' (extractFeatures
      \<lparr>channelData = [replicate 2047 (1 / 10)], frameLength = 2047, sampleRate = 44100\<rparr> (1 / 2)) = 4 / 10
   \<and> map_of (fst (snd (classifyNoise
      \<lparr>channelData = [replicate 2047 (1 / 10)], frameLength = 2047, sampleRate = 44100\<rparr>
      (\<lambda>i. 1 / 2)))) ''Wind'' = Some (3 / 5)"
  by (simp add: extractFeatures_const type_bonus_def classifyNoise_def Let_def
      simulateModelPrediction_entries type_score_def toFixed2_def)

end
